theory Spec2Isabelle
  imports Main
begin

section \<open>Liveness responder\<close>

text \<open>
  \<^verbatim>\<open>bot.py\<close>, lines 11 to 17: one view function, \<^verbatim>\<open>health\<close>, bound by three
  \<^verbatim>\<open>route\<close> decorators to the rules \<^verbatim>\<open>/\<close>, \<^verbatim>\<open>/health\<close> and \<^verbatim>\<open>/healthz\<close>.
  A response is the pair the view returns: body and status code. Decorators apply
  bottom-up, so \<^verbatim>\<open>/healthz\<close> is registered first. Every rule is registered with the
  endpoint name of the function, \<^verbatim>\<open>health\<close>, and the endpoint is looked up in the
  table of view functions. A route declared without \<^verbatim>\<open>methods\<close> answers GET.
\<close>

type_synonym response = "string \<times> nat"

definition health :: "unit \<Rightarrow> response" where
  "health _ = (''OK'', 200)"

definition url_map :: "(string \<times> string) list" where
  "url_map = [(''/healthz'', ''health''), (''/health'', ''health''), (''/'', ''health'')]"

definition view_functions :: "string \<rightharpoonup> (unit \<Rightarrow> response)" where
  "view_functions = [''health'' \<mapsto> health]"

text \<open>The endpoint a GET request for a path is routed to; \<open>None\<close> is Flask's 404.\<close>

definition match_rule :: "string \<Rightarrow> string option" where
  "match_rule path = map_of url_map path"

definition get_request :: "string \<Rightarrow> response option" where
  "get_request path =
     (case match_rule path of
        None \<Rightarrow> None
      | Some endpoint \<Rightarrow>
          (case view_functions endpoint of
             None \<Rightarrow> None
           | Some view \<Rightarrow> Some (view ())))"


section \<open>Numeric validator\<close>

text \<open>
  \<^verbatim>\<open>is_number\<close> (lines 135 to 140) calls the builtin \<^verbatim>\<open>float\<close> and maps every
  exception to \<^verbatim>\<open>False\<close>. The argument is \<^verbatim>\<open>update.message.text\<close>, an optional
  string: \<open>None\<close> is Python's \<^verbatim>\<open>None\<close>. A string is the list of its code points;
  \<open>ustr\<close> gives the code points of a literal.

  The builtin is modelled after the interpreter's conversion of a string
  (\<^verbatim>\<open>PyFloat_FromString\<close>): the string is converted to an ASCII buffer, in which
  white space outside ASCII is a blank and a decimal digit outside ASCII is the ASCII
  digit of its value; digit-grouping underscores are checked and removed, white space
  is stripped from both ends, and the rest must be consumed entirely by the decimal
  scanner or, failing that, by the scanner of \<^verbatim>\<open>inf\<close>, \<^verbatim>\<open>infinity\<close> and \<^verbatim>\<open>nan\<close>. Only
  the kind of literal is kept: \<^verbatim>\<open>is_number\<close> discards the number.
\<close>

type_synonym unicode = "nat list"

definition ustr :: "string \<Rightarrow> unicode" where
  "ustr s = map of_char s"

datatype py_error = TypeError | ValueError | AttributeError | KeyError string | APIError string

datatype float_kind = Decimal | Infinity | NaN

definition is_digit :: "char \<Rightarrow> bool" where
  "is_digit c = (c \<in> set ''0123456789'')"

text \<open>The C locale's \<^verbatim>\<open>isspace\<close>: tab, line feed, vertical tab, form feed, return, blank.\<close>

definition Py_ISSPACE :: "char \<Rightarrow> bool" where
  "Py_ISSPACE c = (c \<in> set [CHR 0x09, CHR 0x0A, CHR 0x0B, CHR 0x0C, CHR 0x0D, CHR 0x20])"

text \<open>
  The character tables of the interpreter, as generated from Unicode 14.0.0 (CPython 3.11).
  \<^verbatim>\<open>Py_UNICODE_ISSPACE\<close> holds of the characters of bidirectional type WS, B or S and of
  those of category Zs: the six of \<^verbatim>\<open>isspace\<close>, the four separators U+001C to U+001F,
  next line, no-break space, ogham space mark, the spaces U+2000 to U+200A, line and
  paragraph separator, narrow no-break space, medium mathematical space and ideographic
  space.
\<close>

definition Py_UNICODE_ISSPACE :: "nat \<Rightarrow> bool" where
  "Py_UNICODE_ISSPACE ch =
     (ch \<in> set [0x09, 0x0A, 0x0B, 0x0C, 0x0D, 0x1C, 0x1D, 0x1E, 0x1F, 0x20, 0x85, 0xA0, 0x1680,
                 0x2000, 0x2001, 0x2002, 0x2003, 0x2004, 0x2005, 0x2006, 0x2007, 0x2008, 0x2009,
                 0x200A, 0x2028, 0x2029, 0x202F, 0x205F, 0x3000])"

text \<open>
  \<^verbatim>\<open>Py_UNICODE_TODECIMAL\<close> gives the value of a decimal digit (category Nd) and \<open>None\<close>,
  the \<^verbatim>\<open>-1\<close> of the source, for any other character. The decimal digits come in 66 runs
  of ten, each from the zero of a script to its nine; \<open>decimal_zeros\<close> lists the zeros,
  from the ASCII digits and the Arabic-Indic digits (U+0660) to the segmented digits
  (U+1FBF0).
\<close>

definition decimal_zeros :: "nat list" where
  "decimal_zeros =
     [0x30, 0x660, 0x6F0, 0x7C0, 0x966, 0x9E6, 0xA66, 0xAE6, 0xB66, 0xBE6, 0xC66, 0xCE6, 0xD66,
      0xDE6, 0xE50, 0xED0, 0xF20, 0x1040, 0x1090, 0x17E0, 0x1810, 0x1946, 0x19D0, 0x1A80,
      0x1A90, 0x1B50, 0x1BB0, 0x1C40, 0x1C50, 0xA620, 0xA8D0, 0xA900, 0xA9D0, 0xA9F0, 0xAA50,
      0xABF0, 0xFF10, 0x104A0, 0x10D30, 0x11066, 0x110F0, 0x11136, 0x111D0, 0x112F0, 0x11450,
      0x114D0, 0x11650, 0x116C0, 0x11730, 0x118E0, 0x11950, 0x11C50, 0x11D50, 0x11DA0,
      0x16A60, 0x16AC0, 0x16B50, 0x1D7CE, 0x1D7D8, 0x1D7E2, 0x1D7EC, 0x1D7F6, 0x1E140,
      0x1E2F0, 0x1E950, 0x1FBF0]"

definition Py_UNICODE_TODECIMAL :: "nat \<Rightarrow> nat option" where
  "Py_UNICODE_TODECIMAL ch =
     map_option (\<lambda>zero. ch - zero) (find (\<lambda>zero. zero \<le> ch \<and> ch < zero + 10) decimal_zeros)"

definition Py_TOLOWER :: "char \<Rightarrow> char" where
  "Py_TOLOWER c =
     (if 65 \<le> (of_char c :: nat) \<and> (of_char c :: nat) \<le> 90 then char_of (of_char c + 32 :: nat)
      else c)"

text \<open>
  \<^verbatim>\<open>_PyUnicode_TransformDecimalAndSpaceToASCII\<close>: an ASCII string is returned as it is.
  Otherwise a code point below 127 is kept, Unicode white space becomes a blank, a
  Unicode decimal digit becomes its ASCII digit (\<^verbatim>\<open>'0' + decimal\<close>, and \<^verbatim>\<open>'0'\<close> is 48),
  and at any other character the output ends with a question mark. The result is the
  buffer of bytes the scanners read.
\<close>

fun transform_loop :: "unicode \<Rightarrow> string" where
  "transform_loop [] = []"
| "transform_loop (ch # rest) =
     (if ch < 127 then char_of ch # transform_loop rest
      else if Py_UNICODE_ISSPACE ch then CHR '' '' # transform_loop rest
      else (case Py_UNICODE_TODECIMAL ch of
              None \<Rightarrow> ''?''
            | Some decimal \<Rightarrow> char_of (48 + decimal) # transform_loop rest))"

definition TransformDecimalAndSpaceToASCII :: "unicode \<Rightarrow> string" where
  "TransformDecimalAndSpaceToASCII s =
     (if \<forall>ch \<in> set s. ch < 128 then map char_of s else transform_loop s)"

text \<open>
  \<^verbatim>\<open>_Py_string_to_number_with_underscores\<close>: without an underscore the string goes to
  the inner function unchanged. Otherwise one pass copies every other character,
  refusing an underscore that does not follow a digit, a non-digit that follows an
  underscore, and an underscore at the end. The pass reads a C string: it stops at a
  NUL, and stopping before the end is refused.
\<close>

fun underscore_loop :: "char \<Rightarrow> string \<Rightarrow> string option" where
  "underscore_loop prev [] = (if prev = CHR ''_'' then None else Some [])"
| "underscore_loop prev (p # rest) =
     (if p = CHR 0x00 then None
      else if p = CHR ''_'' then
        (if \<not> is_digit prev then None else underscore_loop p rest)
      else if prev = CHR ''_'' \<and> \<not> is_digit p then None
      else map_option (Cons p) (underscore_loop p rest))"

definition string_to_number_with_underscores ::
  "string \<Rightarrow> (string \<Rightarrow> py_error + float_kind) \<Rightarrow> py_error + float_kind" where
  "string_to_number_with_underscores s innerfunc =
     (if CHR ''_'' \<notin> set (takeWhile (\<lambda>c. c \<noteq> CHR 0x00) s) then innerfunc s
      else (case underscore_loop (CHR 0x00) s of
              None \<Rightarrow> Inl ValueError
            | Some dup \<Rightarrow> innerfunc dup))"

text \<open>
  \<^verbatim>\<open>_Py_dg_strtod\<close>, the syntax part. A pointer into the buffer is the list of the
  characters from it on; the functions return the end pointer. \<open>lz\<close> records leading
  zeros, \<open>ndigits\<close> counts the digits after them, \<open>fraclen\<close> the digits after the point.
\<close>

definition MAX_DIGITS :: nat where
  "MAX_DIGITS = 1000000000"

definition skip_sign :: "string \<Rightarrow> string" where
  "skip_sign s =
     (case s of
        [] \<Rightarrow> s
      | c # rest \<Rightarrow> if c = CHR ''-'' \<or> c = CHR ''+'' then rest else s)"

definition is_zero :: "char \<Rightarrow> bool" where
  "is_zero c = (c = CHR ''0'')"

definition dg_mantissa :: "string \<Rightarrow> bool \<times> nat \<times> nat \<times> string" where
  "dg_mantissa s =
     (let s1 = dropWhile is_zero s;
          lz = (length s1 < length s);
          s2 = dropWhile is_digit s1;
          ndigits = length s1 - length s2
      in case s2 of
           [] \<Rightarrow> (lz, ndigits, 0, s2)
         | c # s3 \<Rightarrow>
             if c = CHR ''.'' then
               (let s4 = (if ndigits = 0 then dropWhile is_zero s3 else s3);
                    lz' = (lz \<or> length s4 < length s3);
                    s5 = dropWhile is_digit s4
                in (lz', ndigits + (length s4 - length s5), length s3 - length s5, s5))
             else (lz, ndigits, 0, s2))"

definition dg_exponent :: "string \<Rightarrow> string" where
  "dg_exponent s00 =
     (case s00 of
        [] \<Rightarrow> s00
      | c # s \<Rightarrow>
          if c = CHR ''e'' \<or> c = CHR ''E'' then
            (let s1 = skip_sign s;
                 s2 = dropWhile is_zero s1;
                 lz = (length s2 < length s1);
                 s3 = dropWhile is_digit s2
             in if length s3 = length s2 \<and> \<not> lz then s00 else s3)
          else s00)"

text \<open>\<open>None\<close> is the parse error, which leaves the end pointer at the start.\<close>

definition dg_strtod :: "string \<Rightarrow> string option" where
  "dg_strtod s00 =
     (case dg_mantissa (skip_sign s00) of
        (lz, ndigits, fraclen, s) \<Rightarrow>
          if ndigits = 0 \<and> \<not> lz then None
          else if ndigits > MAX_DIGITS \<or> fraclen > MAX_DIGITS then None
          else Some (dg_exponent s))"

text \<open>\<^verbatim>\<open>case_insensitive_match\<close> and \<^verbatim>\<open>_Py_parse_inf_or_nan\<close>.\<close>

fun case_insensitive_match :: "string \<Rightarrow> string \<Rightarrow> bool" where
  "case_insensitive_match s [] = True"
| "case_insensitive_match [] (t # ts) = False"
| "case_insensitive_match (c # cs) (t # ts) = (Py_TOLOWER c = t \<and> case_insensitive_match cs ts)"

definition parse_inf_or_nan :: "string \<Rightarrow> (float_kind \<times> string) option" where
  "parse_inf_or_nan p =
     (let s = skip_sign p
      in if case_insensitive_match s ''inf'' then
           (let s1 = drop 3 s
            in if case_insensitive_match s1 ''inity'' then Some (Infinity, drop 5 s1)
               else Some (Infinity, s1))
         else if case_insensitive_match s ''nan'' then Some (NaN, drop 3 s)
         else None)"

text \<open>
  \<^verbatim>\<open>_PyOS_ascii_strtod\<close>: the decimal scanner first; when it consumed nothing, the
  string may still be an infinity or a NaN.
\<close>

definition ascii_strtod :: "string \<Rightarrow> (float_kind \<times> string) option" where
  "ascii_strtod nptr =
     (case dg_strtod nptr of
        Some endptr \<Rightarrow> Some (Decimal, endptr)
      | None \<Rightarrow> parse_inf_or_nan nptr)"

text \<open>
  \<^verbatim>\<open>float_from_string_inner\<close>: leading white space is skipped, an empty rest is an
  error; \<open>trailing\<close> is the number of characters the loop over the trailing white
  space gives up (never the first character); the scan must end exactly there.
  \<^verbatim>\<open>PyOS_string_to_double\<close> is called without an overflow exception, so a literal
  too large for a double is an infinity, not an error.
\<close>

definition float_from_string_inner :: "string \<Rightarrow> py_error + float_kind" where
  "float_from_string_inner s0 =
     (let s = dropWhile Py_ISSPACE s0
      in if s = [] then Inl ValueError
         else
           (let trailing = min (length (takeWhile Py_ISSPACE (rev s))) (length s - 1)
            in case ascii_strtod s of
                 None \<Rightarrow> Inl ValueError
               | Some (kind, endptr) \<Rightarrow>
                   if length endptr \<noteq> trailing then Inl ValueError else Inr kind))"

definition PyFloat_FromString :: "unicode \<Rightarrow> py_error + float_kind" where
  "PyFloat_FromString v =
     string_to_number_with_underscores (TransformDecimalAndSpaceToASCII v) float_from_string_inner"

text \<open>\<^verbatim>\<open>float(value)\<close> for the values a message text takes: \<^verbatim>\<open>float(None)\<close> is a type error.\<close>

definition py_float :: "unicode option \<Rightarrow> py_error + float_kind" where
  "py_float val = (case val of None \<Rightarrow> Inl TypeError | Some s \<Rightarrow> PyFloat_FromString s)"

text \<open>The bare \<^verbatim>\<open>except\<close> catches whatever \<^verbatim>\<open>float\<close> raises.\<close>

definition is_number :: "unicode option \<Rightarrow> bool" where
  "is_number val = (case py_float val of Inr _ \<Rightarrow> True | Inl _ \<Rightarrow> False)"

section \<open>Conversation flow\<close>

text \<open>
  The states of line 129, with \<^verbatim>\<open>ConversationHandler.END\<close>, the value a handler returns to
  end the conversation.
\<close>

datatype state = CASH | CARD | UBER | DELIVEROO | APP | END

text \<open>
  What the handlers read from a message: its text, its entities (the chat service marks a
  command as a \<^verbatim>\<open>bot_command\<close> entity), the sender's full name and the user name of the bot
  that received it, which is made of ASCII letters, digits and underscores.
\<close>

datatype entity_type = BOT_COMMAND | OTHER_ENTITY

record message_entity =
  etype :: entity_type
  offset :: nat
  elength :: nat

record message =
  message_text :: "unicode option"
  entities :: "message_entity list"
  full_name :: unicode
  bot_username :: string

text \<open>
  An update of a conversation carries a new message, \<^verbatim>\<open>update.message\<close>, or a message that
  was edited, \<^verbatim>\<open>update.edited_message\<close>; the attribute it does not carry is \<^verbatim>\<open>None\<close>.
  \<^verbatim>\<open>update.effective_message\<close> is the message an update carries, whichever it is.
\<close>

record update =
  message :: "message option"
  edited_message :: "message option"

definition effective_message :: "update \<Rightarrow> message option" where
  "effective_message u = (case message u of Some m \<Rightarrow> Some m | None \<Rightarrow> edited_message u)"

text \<open>
  What a handler does besides returning: replies, lines on standard output, and calls of
  \<^verbatim>\<open>sheet.append_row\<close>, in the order they happen.
\<close>

datatype effect =
    Reply unicode
  | Print_debug "unicode option list"
  | Print_error py_error
  | Append_row "unicode list"

text \<open>
  The world a handler runs in: \<^verbatim>\<open>context.user_data\<close> (a dictionary from field name to the
  stored text), the effects so far, and the rows of the sheet.
\<close>

record world =
  user_data :: "string \<rightharpoonup> unicode option"
  trace :: "effect list"
  sheet :: "unicode list list"

text \<open>
  What a handler call takes from outside: the formatted local time
  (\<^verbatim>\<open>datetime.now().strftime(...)\<close>) and whether the spreadsheet client raises on this
  call, and with which message.
\<close>

record env =
  now :: unicode
  append_error :: "string option"

type_synonym callback = "env \<Rightarrow> update \<Rightarrow> world \<Rightarrow> (py_error + state) \<times> world"

text \<open>A reply is recorded; sending it is taken to succeed.\<close>

definition reply_text :: "unicode \<Rightarrow> world \<Rightarrow> world" where
  "reply_text t w = w\<lparr>trace := trace w @ [Reply t]\<rparr>"

definition print_line :: "effect \<Rightarrow> world \<Rightarrow> world" where
  "print_line e w = w\<lparr>trace := trace w @ [e]\<rparr>"

definition setitem :: "string \<Rightarrow> unicode option \<Rightarrow> world \<Rightarrow> world" where
  "setitem k v w = w\<lparr>user_data := (user_data w)(k \<mapsto> v)\<rparr>"

definition clear :: "world \<Rightarrow> world" where
  "clear w = w\<lparr>user_data := Map.empty\<rparr>"

text \<open>\<^verbatim>\<open>d[k]\<close> raises a key error on a missing key; a list display evaluates left to right.\<close>

definition getitem :: "(string \<rightharpoonup> 'v) \<Rightarrow> string \<Rightarrow> py_error + 'v" where
  "getitem d k = (case d k of None \<Rightarrow> Inl (KeyError k) | Some v \<Rightarrow> Inr v)"

fun getitems :: "(string \<rightharpoonup> 'v) \<Rightarrow> string list \<Rightarrow> py_error + 'v list" where
  "getitems d [] = Inr []"
| "getitems d (k # ks) =
     (case getitem d k of
        Inl e \<Rightarrow> Inl e
      | Inr v \<Rightarrow> (case getitems d ks of Inl e \<Rightarrow> Inl e | Inr vs \<Rightarrow> Inr (v # vs)))"

text \<open>\<^verbatim>\<open>str\<close> of an optional string.\<close>

definition py_str :: "unicode option \<Rightarrow> unicode" where
  "py_str v = (case v of None \<Rightarrow> ustr ''None'' | Some s \<Rightarrow> s)"

text \<open>
  \<^verbatim>\<open>sheet.append_row\<close>: the call is recorded; the client either raises or adds the row.
\<close>

definition append_row :: "env \<Rightarrow> unicode list \<Rightarrow> world \<Rightarrow> (py_error + unit) \<times> world" where
  "append_row e row w =
     (let w1 = w\<lparr>trace := trace w @ [Append_row row]\<rparr>
      in case append_error e of
           Some msg \<Rightarrow> (Inl (APIError msg), w1)
         | None \<Rightarrow> (Inr (), w1\<lparr>sheet := sheet w1 @ [row]\<rparr>))"

text \<open>The two emoji of the replies: the cross mark U+274C and the check mark U+2705.\<close>

definition cross_mark :: nat where
  "cross_mark = 0x274C"

definition check_mark :: nat where
  "check_mark = 0x2705"

definition invalid_prompt :: "string \<Rightarrow> unicode" where
  "invalid_prompt field = cross_mark # ustr ('' Please enter a valid number for '' @ field @ ''.'')"

text \<open>
  The handlers. Each reads \<^verbatim>\<open>update.message\<close>, which is \<^verbatim>\<open>None\<close> when the update carries
  an edited message: reading an attribute of \<^verbatim>\<open>None\<close> raises an attribute error. \<^verbatim>\<open>start\<close>
  and the five amount handlers read it in their first statement.
\<close>

definition start :: callback where
  "start e u w =
     (case message u of
        None \<Rightarrow> (Inl AttributeError, w)
      | Some m \<Rightarrow> (Inr CASH, reply_text (ustr ''Enter Cash amount:'') w))"

definition cash :: callback where
  "cash e u w =
     (case message u of
        None \<Rightarrow> (Inl AttributeError, w)
      | Some m \<Rightarrow>
          (let val = message_text m
           in if \<not> is_number val then (Inr CASH, reply_text (invalid_prompt ''Cash'') w)
              else (Inr CARD, reply_text (ustr ''Enter Card amount:'') (setitem ''Cash'' val w))))"

text \<open>The handler \<^verbatim>\<open>card\<close>; the name \<open>card\<close> is the cardinality of a set here.\<close>

definition card_amount :: callback where
  "card_amount e u w =
     (case message u of
        None \<Rightarrow> (Inl AttributeError, w)
      | Some m \<Rightarrow>
          (let val = message_text m
           in if \<not> is_number val then (Inr CARD, reply_text (invalid_prompt ''Card'') w)
              else (Inr UBER, reply_text (ustr ''Enter Uber amount:'') (setitem ''Card'' val w))))"

definition uber :: callback where
  "uber e u w =
     (case message u of
        None \<Rightarrow> (Inl AttributeError, w)
      | Some m \<Rightarrow>
          (let val = message_text m
           in if \<not> is_number val then (Inr UBER, reply_text (invalid_prompt ''Uber'') w)
              else (Inr DELIVEROO,
                    reply_text (ustr ''Enter Deliveroo amount:'') (setitem ''Uber'' val w))))"

definition deliveroo :: callback where
  "deliveroo e u w =
     (case message u of
        None \<Rightarrow> (Inl AttributeError, w)
      | Some m \<Rightarrow>
          (let val = message_text m
           in if \<not> is_number val then (Inr DELIVEROO, reply_text (invalid_prompt ''Deliveroo'') w)
              else (Inr APP, reply_text (ustr ''Enter App amount:'') (setitem ''Deliveroo'' val w))))"

definition columns :: "string list" where
  "columns = [''Cash'', ''Card'', ''Uber'', ''Deliveroo'', ''App'']"

text \<open>
  The body of the \<^verbatim>\<open>try\<close> of lines 216 to 226: the row is built from the dictionary, handed
  to the sheet, and the success reply follows.
\<close>

definition try_append :: "env \<Rightarrow> unicode \<Rightarrow> unicode \<Rightarrow> world \<Rightarrow> (py_error + unit) \<times> world" where
  "try_append e timestamp staff_name w =
     (case getitems (user_data w) columns of
        Inl err \<Rightarrow> (Inl err, w)
      | Inr vals \<Rightarrow>
          (case append_row e (py_str (Some timestamp) # py_str (Some staff_name) # map py_str vals) w of
             (Inl err, w1) \<Rightarrow> (Inl err, w1)
           | (Inr _, w1) \<Rightarrow>
               (Inr (), reply_text (check_mark # ustr '' All values saved successfully!'') w1)))"

text \<open>
  \<^verbatim>\<open>app_amount\<close>, lines 195 to 232. The debug print reads the five fields outside the
  \<^verbatim>\<open>try\<close>: a missing one raises out of the handler, after the App field was stored.
\<close>

definition app_amount :: callback where
  "app_amount e u w =
     (case message u of
        None \<Rightarrow> (Inl AttributeError, w)
      | Some m \<Rightarrow>
          (let val = message_text m
           in if \<not> is_number val then (Inr APP, reply_text (invalid_prompt ''App'') w)
              else
                (let w1 = setitem ''App'' val w;
                     timestamp = now e;
                     staff_name = full_name m
                 in case getitems (user_data w1) columns of
                      Inl err \<Rightarrow> (Inl err, w1)
                    | Inr vals \<Rightarrow>
                        (let w2 = print_line (Print_debug (Some timestamp # Some staff_name # vals)) w1;
                             w4 = (case try_append e timestamp staff_name w2 of
                                     (Inr _, w3) \<Rightarrow> w3
                                   | (Inl err, w3) \<Rightarrow>
                                       reply_text
                                         (cross_mark # ustr '' Error saving to Google Sheet. Check logs.'')
                                         (print_line (Print_error err) w3))
                         in (Inr END, clear w4)))))"

text \<open>
  \<^verbatim>\<open>cancel\<close>, lines 235 to 238, clears the dictionary in its first statement and reads
  \<^verbatim>\<open>update.message\<close> in its second: on an edited message it raises after the dictionary
  was cleared.
\<close>

definition cancel :: callback where
  "cancel e u w =
     (let w1 = clear w
      in case message u of
           None \<Rightarrow> (Inl AttributeError, w1)
         | Some m \<Rightarrow> (Inr END, reply_text (ustr ''Entry cancelled.'') w1))"

section \<open>The conversation handler\<close>

text \<open>
  Lines 245 to 255 build a \<^verbatim>\<open>ConversationHandler\<close> from command handlers and message
  handlers with the filter \<^verbatim>\<open>filters.TEXT & ~filters.COMMAND\<close>. The handlers and filters
  are data; the functions after them say how the library reads them.
\<close>

datatype msg_filter = TEXT | COMMAND | And_filter msg_filter msg_filter | Not_filter msg_filter

datatype handler = CommandHandler string callback | MessageHandler msg_filter callback

record conversation_handler =
  entry_points :: "handler list"
  states :: "state \<rightharpoonup> handler list"
  fallbacks :: "handler list"

definition conv_handler :: conversation_handler where
  "conv_handler =
     \<lparr>entry_points = [CommandHandler ''start'' start],
      states =
        [CASH \<mapsto> [MessageHandler (And_filter TEXT (Not_filter COMMAND)) cash],
         CARD \<mapsto> [MessageHandler (And_filter TEXT (Not_filter COMMAND)) card_amount],
         UBER \<mapsto> [MessageHandler (And_filter TEXT (Not_filter COMMAND)) uber],
         DELIVEROO \<mapsto> [MessageHandler (And_filter TEXT (Not_filter COMMAND)) deliveroo],
         APP \<mapsto> [MessageHandler (And_filter TEXT (Not_filter COMMAND)) app_amount]],
      fallbacks = [CommandHandler ''cancel'' cancel]\<rparr>"

text \<open>
  A filter is checked on the effective message of the update, new or edited, and a basic
  filter fails when there is none. \<^verbatim>\<open>filters.TEXT\<close> holds of a message with a non-empty
  text; \<^verbatim>\<open>filters.COMMAND\<close> of a message whose first entity is a bot command at offset 0.
\<close>

fun check_filter :: "msg_filter \<Rightarrow> message option \<Rightarrow> bool" where
  "check_filter TEXT em =
     (case em of
        None \<Rightarrow> False
      | Some m \<Rightarrow> (case message_text m of None \<Rightarrow> False | Some t \<Rightarrow> t \<noteq> []))"
| "check_filter COMMAND em =
     (case em of
        None \<Rightarrow> False
      | Some m \<Rightarrow>
          (case entities m of
             [] \<Rightarrow> False
           | first # _ \<Rightarrow> etype first = BOT_COMMAND \<and> offset first = 0))"
| "check_filter (And_filter f g) em = (check_filter f em \<and> check_filter g em)"
| "check_filter (Not_filter f) em = (\<not> check_filter f em)"

text \<open>
  \<^verbatim>\<open>str.lower\<close>, as far as a comparison with a command or with the user name of the bot
  needs it. It is exact on every character whose lower case is one character below 256:
  the capitals of ASCII and of Latin-1 and four characters above them (capital y with
  diaeresis, capital sharp s, the Kelvin sign and the Angstrom sign). Any other character
  is left as it is: it is above 255 and so is a character of its lower case, and neither
  occurs in a command or in a user name.
\<close>

definition lower_char :: "nat \<Rightarrow> nat" where
  "lower_char c =
     (if (65 \<le> c \<and> c \<le> 90) \<or> (192 \<le> c \<and> c \<le> 222 \<and> c \<noteq> 215) then c + 32
      else if c = 0x178 then 0xFF
      else if c = 0x1E9E then 0xDF
      else if c = 0x212A then 0x6B
      else if c = 0x212B then 0xE5
      else c)"

definition lower :: "unicode \<Rightarrow> unicode" where
  "lower s = map lower_char s"

text \<open>\<^verbatim>\<open>str.split("@")\<close>; 64 is the code point of the separator.\<close>

fun split_at :: "unicode \<Rightarrow> unicode list" where
  "split_at [] = [[]]"
| "split_at (c # cs) =
     (if c = 64 then [] # split_at cs
      else (case split_at cs of
              [] \<Rightarrow> [[c]]
            | part # parts \<Rightarrow> (c # part) # parts))"

text \<open>
  A command handler accepts a message that starts with a bot command entity and has a
  text, when the command (the text from index 1 to the entity's length, up to an
  \<^verbatim>\<open>@\<close>) is its own and the part after the \<^verbatim>\<open>@\<close>, if any, is the bot's user name.
\<close>

definition check_command :: "string \<Rightarrow> message \<Rightarrow> bool" where
  "check_command cmd m =
     (case entities m of
        [] \<Rightarrow> False
      | first # _ \<Rightarrow>
          etype first = BOT_COMMAND \<and> offset first = 0 \<and>
          (case message_text m of
             None \<Rightarrow> False
           | Some t \<Rightarrow>
               t \<noteq> [] \<and>
               (let command = take (elength first - 1) (drop 1 t);
                    command_parts = split_at command @ [ustr (bot_username m)]
                in case command_parts of
                     p0 # p1 # _ \<Rightarrow>
                       lower p0 = lower (ustr cmd) \<and> lower p1 = lower (ustr (bot_username m))
                   | _ \<Rightarrow> False)))"

text \<open>
  \<^verbatim>\<open>check_update\<close> of a handler. Both kinds look at the effective message: a command
  handler is built with the default filter \<^verbatim>\<open>filters.UpdateType.MESSAGES\<close>, which holds
  of new and of edited messages alike, and a message handler checks its filter.
\<close>

fun check_update :: "handler \<Rightarrow> update \<Rightarrow> bool" where
  "check_update (CommandHandler cmd cb) u =
     (case effective_message u of None \<Rightarrow> False | Some m \<Rightarrow> check_command cmd m)"
| "check_update (MessageHandler f cb) u = check_filter f (effective_message u)"

fun callback_of :: "handler \<Rightarrow> callback" where
  "callback_of (CommandHandler cmd cb) = cb"
| "callback_of (MessageHandler f cb) = cb"

text \<open>
  The handler a conversation in a given state picks for an update. Without a state the
  entry points are searched; with one, the handlers of the state and then the
  fallbacks (\<^verbatim>\<open>allow_reentry\<close> is not set, so the entry points are not).
\<close>

definition select_handler :: "conversation_handler \<Rightarrow> state option \<Rightarrow> update \<Rightarrow> handler option" where
  "select_handler ch st u =
     (case st of
        None \<Rightarrow> find (\<lambda>h. check_update h u) (entry_points ch)
      | Some s \<Rightarrow>
          (case find (\<lambda>h. check_update h u) (case states ch s of None \<Rightarrow> [] | Some hs \<Rightarrow> hs) of
             Some h \<Rightarrow> Some h
           | None \<Rightarrow> find (\<lambda>h. check_update h u) (fallbacks ch)))"

text \<open>
  One update: the picked handler runs; \<^verbatim>\<open>END\<close> removes the conversation, any other state
  is stored, and an exception leaves the state as it was, with whatever the handler did
  before it. An update no handler accepts changes nothing.
\<close>

definition handle_update ::
  "conversation_handler \<Rightarrow> env \<Rightarrow> update \<Rightarrow> state option \<times> world \<Rightarrow> state option \<times> world" where
  "handle_update ch e u c =
     (case select_handler ch (fst c) u of
        None \<Rightarrow> c
      | Some h \<Rightarrow>
          (case callback_of h e u (snd c) of
             (Inl err, w) \<Rightarrow> (fst c, w)
           | (Inr new_state, w) \<Rightarrow> (if new_state = END then None else Some new_state, w)))"

text \<open>The configurations after each of a list of updates.\<close>

fun steps ::
  "conversation_handler \<Rightarrow> (env \<times> update) list \<Rightarrow> state option \<times> world \<Rightarrow> (state option \<times> world) list" where
  "steps ch [] c = []"
| "steps ch ((e, u) # rest) c = (let c' = handle_update ch e u c in c' # steps ch rest c')"

text \<open>The rows handed to \<^verbatim>\<open>append_row\<close>, in order.\<close>

fun sink_calls :: "effect list \<Rightarrow> unicode list list" where
  "sink_calls [] = []"
| "sink_calls (Append_row row # es) = row # sink_calls es"
| "sink_calls (_ # es) = sink_calls es"

text \<open>The fields of the states before a state.\<close>

fun fields_before :: "state option \<Rightarrow> string list" where
  "fields_before None = []"
| "fields_before (Some CASH) = []"
| "fields_before (Some CARD) = [''Cash'']"
| "fields_before (Some UBER) = [''Cash'', ''Card'']"
| "fields_before (Some DELIVEROO) = [''Cash'', ''Card'', ''Uber'']"
| "fields_before (Some APP) = [''Cash'', ''Card'', ''Uber'', ''Deliveroo'']"
| "fields_before (Some END) = []"

section \<open>The specification's reading of a number\<close>

text \<open>
  The specification calls a text a number when it is an integer or a decimal, optionally
  signed, without grouping: the characters are ASCII, and after an optional sign there are
  only digits and at most one decimal point, and at least one digit.
\<close>

definition plain_decimal :: "unicode \<Rightarrow> bool" where
  "plain_decimal s =
     (let body = skip_sign (map char_of s)
      in (\<forall>c \<in> set s. c < 128) \<and>
         (\<exists>c \<in> set body. is_digit c) \<and>
         (\<forall>c \<in> set body. is_digit c \<or> c = CHR ''.'') \<and>
         length (filter (\<lambda>c. c = CHR ''.'') body) \<le> 1)"

section \<open>The syntax of a float literal\<close>

text \<open>
  What the decimal scanner reads of a text after the sign: the digits before the point, the
  rest after them, the point with the digits after it, and the rest after the mantissa.
\<close>

definition int_digits :: "string \<Rightarrow> string" where
  "int_digits s = takeWhile is_digit s"

definition after_int :: "string \<Rightarrow> string" where
  "after_int s = dropWhile is_digit s"

definition frac_digits :: "string \<Rightarrow> string" where
  "frac_digits s =
     (case after_int s of [] \<Rightarrow> [] | c # t \<Rightarrow> if c = CHR ''.'' then takeWhile is_digit t else [])"

definition mant_rest :: "string \<Rightarrow> string" where
  "mant_rest s =
     (case after_int s of [] \<Rightarrow> [] | c # t \<Rightarrow> if c = CHR ''.'' then dropWhile is_digit t else c # t)"

definition frac_part :: "string \<Rightarrow> string" where
  "frac_part s =
     (case after_int s of [] \<Rightarrow> [] | c # t \<Rightarrow> if c = CHR ''.'' then c # takeWhile is_digit t else [])"

text \<open>
  The syntax of a float literal, after the language reference: an optional sign, then a
  decimal number (digits with an optional point and at least one digit, and an optional
  exponent with at least one digit) or one of \<^verbatim>\<open>inf\<close>, \<^verbatim>\<open>infinity\<close> and \<^verbatim>\<open>nan\<close> in any
  letter case.
\<close>

definition digits :: "string \<Rightarrow> bool" where
  "digits a = (\<forall>c \<in> set a. is_digit c)"

definition is_sign :: "string \<Rightarrow> bool" where
  "is_sign sg = (sg = [] \<or> sg = ''+'' \<or> sg = ''-'')"

definition fraction_part :: "string \<Rightarrow> bool" where
  "fraction_part fr = (fr = [] \<or> (\<exists>b. fr = CHR ''.'' # b \<and> digits b))"

definition exponent_part :: "string \<Rightarrow> bool" where
  "exponent_part ex =
     (ex = [] \<or>
      (\<exists>c sg d. ex = c # sg @ d \<and> (c = CHR ''e'' \<or> c = CHR ''E'') \<and> is_sign sg \<and> digits d \<and> d \<noteq> []))"

definition decimal_text :: "string \<Rightarrow> bool" where
  "decimal_text t =
     (\<exists>a fr ex. t = a @ fr @ ex \<and> digits a \<and> fraction_part fr \<and> (a \<noteq> [] \<or> 1 < length fr) \<and>
        exponent_part ex)"

definition special_text :: "string \<Rightarrow> bool" where
  "special_text t = (map Py_TOLOWER t \<in> {''inf'', ''infinity'', ''nan''})"

definition float_body :: "string \<Rightarrow> bool" where
  "float_body t = (\<exists>sg rest. t = sg @ rest \<and> is_sign sg \<and> (decimal_text rest \<or> special_text rest))"

text \<open>White space of the C locale, the characters of a literal, and a literal between white space.\<close>

definition spaces :: "string \<Rightarrow> bool" where
  "spaces ws = (\<forall>c \<in> set ws. Py_ISSPACE c)"

definition body_char :: "char \<Rightarrow> bool" where
  "body_char c = (is_digit c \<or> c \<in> set ''.+-eE'' \<or> Py_TOLOWER c \<in> set ''infaty'')"

definition trimmed_body :: "string \<Rightarrow> bool" where
  "trimmed_body t =
     (\<exists>ws1 body ws2. t = ws1 @ body @ ws2 \<and> spaces ws1 \<and> spaces ws2 \<and> float_body body)"

text \<open>
  Digit grouping: every underscore stands between two digits. \<open>grouping_from\<close> is the
  same with the character before the text given.
\<close>

definition grouping_from :: "char \<Rightarrow> string \<Rightarrow> bool" where
  "grouping_from prev s =
     (\<forall>pre post. s = pre @ CHR ''_'' # post \<longrightarrow>
        is_digit (last (prev # pre)) \<and> post \<noteq> [] \<and> is_digit (hd post))"

definition grouping_ok :: "string \<Rightarrow> bool" where
  "grouping_ok s =
     (\<forall>pre post. s = pre @ CHR ''_'' # post \<longrightarrow>
        pre \<noteq> [] \<and> is_digit (last pre) \<and> post \<noteq> [] \<and> is_digit (hd post))"

definition no_underscores :: "string \<Rightarrow> string" where
  "no_underscores s = filter (\<lambda>c. c \<noteq> CHR ''_'') s"

text \<open>
  The ASCII reading of a character: a character below 127 is read as itself, white space
  from there on as a blank, and a decimal digit from there on as the ASCII digit of its
  value. A character with a reading is \<open>convertible\<close>; the reading of any other
  character is a question mark.
\<close>

definition convertible :: "nat \<Rightarrow> bool" where
  "convertible c = (c < 127 \<or> Py_UNICODE_ISSPACE c \<or> Py_UNICODE_TODECIMAL c \<noteq> None)"

definition to_ascii :: "nat \<Rightarrow> char" where
  "to_ascii c =
     (if c < 127 then char_of c
      else if Py_UNICODE_ISSPACE c then CHR '' ''
      else (case Py_UNICODE_TODECIMAL c of None \<Rightarrow> CHR ''?'' | Some d \<Rightarrow> char_of (48 + d)))"

text \<open>
  The texts \<^verbatim>\<open>float\<close> accepts: every character is convertible and, in the ASCII reading of
  the text, every underscore stands between two digits and without the underscores the
  reading is a literal between white space.
\<close>

definition float_text :: "unicode \<Rightarrow> bool" where
  "float_text s =
     ((\<forall>c \<in> set s. convertible c) \<and>
      grouping_ok (map to_ascii s) \<and>
      trimmed_body (no_underscores (map to_ascii s)))"

section \<open>Sample inputs\<close>

text \<open>
  A plain text message and a command message as the chat service marks it, each as a new
  and as an edited message; worlds and environments.
\<close>

definition text_message :: "unicode \<Rightarrow> message" where
  "text_message t =
     \<lparr>message_text = Some t, entities = [], full_name = ustr ''Sam Lee'',
      bot_username = ''cleos_bot''\<rparr>"

definition command_message :: "string \<Rightarrow> message" where
  "command_message name =
     \<lparr>message_text = Some (ustr (CHR ''/'' # name)),
      entities = [\<lparr>etype = BOT_COMMAND, offset = 0, elength = Suc (length name)\<rparr>],
      full_name = ustr ''Sam Lee'', bot_username = ''cleos_bot''\<rparr>"

definition text_update :: "unicode \<Rightarrow> update" where
  "text_update t = \<lparr>message = Some (text_message t), edited_message = None\<rparr>"

definition command_update :: "string \<Rightarrow> update" where
  "command_update name = \<lparr>message = Some (command_message name), edited_message = None\<rparr>"

definition edited_text_update :: "unicode \<Rightarrow> update" where
  "edited_text_update t = \<lparr>message = None, edited_message = Some (text_message t)\<rparr>"

definition edited_command_update :: "string \<Rightarrow> update" where
  "edited_command_update name = \<lparr>message = None, edited_message = Some (command_message name)\<rparr>"

definition empty_world :: world where
  "empty_world = \<lparr>user_data = Map.empty, trace = [], sheet = []\<rparr>"

definition cash_world :: world where
  "cash_world = \<lparr>user_data = [''Cash'' \<mapsto> Some (ustr ''50'')], trace = [], sheet = []\<rparr>"

definition app_world :: world where
  "app_world =
     \<lparr>user_data = [''Cash'' \<mapsto> Some (ustr ''50''), ''Card'' \<mapsto> Some (ustr ''20''),
                   ''Uber'' \<mapsto> Some (ustr ''10''), ''Deliveroo'' \<mapsto> Some (ustr ''5'')],
      trace = [], sheet = []\<rparr>"

definition env_ok :: env where
  "env_ok = \<lparr>now = ustr ''2024-05-01 18:30:00'', append_error = None\<rparr>"

definition env_down :: env where
  "env_down = \<lparr>now = ustr ''2024-05-01 18:30:00'', append_error = Some ''quota exceeded''\<rparr>"

text \<open>
  A conversation in which the user starts, enters the Cash amount, edits an earlier message
  into the cancel command, and goes on with the four other amounts.
\<close>

definition cancelled_run :: "(env \<times> update) list" where
  "cancelled_run =
     [(env_ok, command_update ''start''), (env_ok, text_update (ustr ''50'')),
      (env_ok, edited_command_update ''cancel''), (env_ok, text_update (ustr ''20'')),
      (env_ok, text_update (ustr ''10'')), (env_ok, text_update (ustr ''5'')),
      (env_ok, text_update (ustr ''15''))]"

section \<open>Evaluation and dispatch lemmas\<close>

lemmas float_defs = is_number_def py_float_def PyFloat_FromString_def
  string_to_number_with_underscores_def
  float_from_string_inner_def ascii_strtod_def dg_strtod_def dg_mantissa_def dg_exponent_def
  skip_sign_def parse_inf_or_nan_def is_digit_def is_zero_def Py_ISSPACE_def
  Py_TOLOWER_def MAX_DIGITS_def Let_def

lemmas unicode_defs = TransformDecimalAndSpaceToASCII_def Py_UNICODE_ISSPACE_def
  Py_UNICODE_TODECIMAL_def decimal_zeros_def char_of_eq_iff

text \<open>The conversion leaves the code points of an ASCII literal as the literal.\<close>

lemma chars_ustr: "map char_of (ustr a) = a"
  by (simp add: ustr_def comp_def)

lemma ascii_ustr: "(\<forall>ch \<in> set (ustr a). ch < 128) \<longleftrightarrow> (\<forall>c \<in> set a. (of_char c :: nat) < 128)"
  by (simp add: ustr_def)

lemma transform_ustr:
  assumes "\<forall>c \<in> set a. (of_char c :: nat) < 128"
  shows "TransformDecimalAndSpaceToASCII (ustr a) = a"
proof -
  have "\<forall>ch \<in> set (ustr a). ch < 128" using assms by (simp add: ascii_ustr)
  then have "TransformDecimalAndSpaceToASCII (ustr a) = map char_of (ustr a)"
    unfolding TransformDecimalAndSpaceToASCII_def by (rule if_P)
  then show ?thesis by (simp add: chars_ustr)
qed

lemma is_number_None: "\<not> is_number None"
  by (simp add: is_number_def py_float_def)

lemma is_number_empty: "\<not> is_number (Some [])"
  by (simp add: float_defs unicode_defs)

lemma valid_15: "is_number (Some (ustr ''15''))"
  by (simp add: float_defs transform_ustr)

lemmas sample_defs = text_message_def command_message_def text_update_def command_update_def
  edited_text_update_def edited_command_update_def empty_world_def cash_world_def
  app_world_def env_ok_def env_down_def

lemma effective_new: "message u = Some m \<Longrightarrow> effective_message u = Some m"
  by (simp add: effective_message_def)

lemma effective_cases:
  assumes "effective_message u = Some m"
  shows "message u = Some m \<or> (message u = None \<and> edited_message u = Some m)"
  using assms by (auto simp: effective_message_def split: option.splits)

lemma command_is_COMMAND: "check_command cmd m \<Longrightarrow> check_filter COMMAND (Some m)"
  by (auto simp: check_command_def split: list.splits)


lemma cmd_cancel: "check_command ''cancel'' (command_message ''cancel'')"
  by (simp add: check_command_def sample_defs lower_def lower_char_def ustr_def)

lemma cmd_start: "check_command ''start'' (command_message ''start'')"
  by (simp add: check_command_def sample_defs lower_def lower_char_def ustr_def)

text \<open>Which handler a conversation in one of the five states picks, and which an idle one.\<close>

lemma select_awaiting:
  assumes "st \<noteq> END"
  shows "\<exists>cb. states conv_handler st = Some [MessageHandler (And_filter TEXT (Not_filter COMMAND)) cb] \<and>
     select_handler conv_handler (Some st) u =
       (if check_filter TEXT (effective_message u) \<and> \<not> check_filter COMMAND (effective_message u)
        then Some (MessageHandler (And_filter TEXT (Not_filter COMMAND)) cb)
        else if check_update (CommandHandler ''cancel'' cancel) u
        then Some (CommandHandler ''cancel'' cancel)
        else None)"
  using assms by (cases st) (simp_all add: conv_handler_def select_handler_def)

lemma select_idle:
  "select_handler conv_handler None u =
     (if check_update (CommandHandler ''start'' start) u then Some (CommandHandler ''start'' start)
      else None)"
  by (simp add: conv_handler_def select_handler_def)

lemma select_plain:
  assumes "st \<noteq> END" "effective_message u = Some m"
    "check_filter TEXT (Some m)" "\<not> check_filter COMMAND (Some m)"
  shows "\<exists>cb. states conv_handler st = Some [MessageHandler (And_filter TEXT (Not_filter COMMAND)) cb] \<and>
     select_handler conv_handler (Some st) u =
       Some (MessageHandler (And_filter TEXT (Not_filter COMMAND)) cb)"
  using select_awaiting [OF assms(1), of u] assms(3,4) unfolding assms(2) by auto

lemma sink_calls_append: "sink_calls (xs @ ys) = sink_calls xs @ sink_calls ys"
  by (induction xs rule: sink_calls.induct) auto

lemma getitems_columns:
  assumes "d ''Cash'' = Some c" "d ''Card'' = Some cd" "d ''Uber'' = Some ub"
    "d ''Deliveroo'' = Some dl" "d ''App'' = Some ap"
  shows "getitems d columns = Inr [c, cd, ub, dl, ap]"
  using assms by (simp add: columns_def getitem_def)

text \<open>What \<^verbatim>\<open>app_amount\<close> does with a valid text when the four earlier fields are set.\<close>

lemma app_amount_valid:
  assumes m: "message u = Some m"
    and v: "is_number (message_text m)"
    and d: "user_data w ''Cash'' = Some c" "user_data w ''Card'' = Some cd"
      "user_data w ''Uber'' = Some ub" "user_data w ''Deliveroo'' = Some dl"
  shows "app_amount e u w =
     (Inr END,
      w\<lparr>user_data := Map.empty,
        trace := trace w @
          [Print_debug [Some (now e), Some (full_name m), c, cd, ub, dl, message_text m],
           Append_row [now e, full_name m, py_str c, py_str cd, py_str ub, py_str dl,
                       py_str (message_text m)]] @
          (case append_error e of
             Some msg \<Rightarrow> [Print_error (APIError msg),
                          Reply (cross_mark # ustr '' Error saving to Google Sheet. Check logs.'')]
           | None \<Rightarrow> [Reply (check_mark # ustr '' All values saved successfully!'')]),
        sheet := (case append_error e of
                    Some msg \<Rightarrow> sheet w
                  | None \<Rightarrow> sheet w @ [[now e, full_name m, py_str c, py_str cd, py_str ub,
                                        py_str dl, py_str (message_text m)]])\<rparr>)"
proof -
  let ?val = "message_text m"
  let ?w1 = "setitem ''App'' ?val w"
  let ?w2 = "print_line (Print_debug [Some (now e), Some (full_name m), c, cd, ub, dl, ?val]) ?w1"
  have g: "getitems (user_data ?w1) columns = Inr [c, cd, ub, dl, ?val]"
    using d by (intro getitems_columns) (simp_all add: setitem_def)
  have g2: "getitems (user_data ?w2) columns = Inr [c, cd, ub, dl, ?val]"
    using g by (simp add: print_line_def)
  have t: "try_append e (now e) (full_name m) ?w2 =
     (case append_error e of
        Some msg \<Rightarrow> (Inl (APIError msg), ?w2\<lparr>trace := trace ?w2 @
            [Append_row [now e, full_name m, py_str c, py_str cd, py_str ub, py_str dl, py_str ?val]]\<rparr>)
      | None \<Rightarrow> (Inr (), ?w2\<lparr>trace := trace ?w2 @
            [Append_row [now e, full_name m, py_str c, py_str cd, py_str ub, py_str dl, py_str ?val],
             Reply (check_mark # ustr '' All values saved successfully!'')],
           sheet := sheet ?w2 @ [[now e, full_name m, py_str c, py_str cd, py_str ub, py_str dl, py_str ?val]]\<rparr>))"
    unfolding try_append_def g2
    by (cases "append_error e") (simp_all add: append_row_def reply_text_def py_str_def)
  have a: "app_amount e u w =
     (Inr END, clear (case try_append e (now e) (full_name m) ?w2 of
                 (Inr _, w3) \<Rightarrow> w3
               | (Inl err, w3) \<Rightarrow>
                   reply_text (cross_mark # ustr '' Error saving to Google Sheet. Check logs.'')
                     (print_line (Print_error err) w3)))"
    using v unfolding app_amount_def m option.case Let_def g by simp
  show ?thesis unfolding a t
    by (cases "append_error e")
      (simp_all add: print_line_def reply_text_def clear_def setitem_def)
qed

text \<open>One update with a valid plain text in a new message, in each of the five states.\<close>

lemma step_valid:
  assumes m: "message u = Some m"
    and v: "is_number (message_text m)"
    and f: "check_filter TEXT (Some m)" "\<not> check_filter COMMAND (Some m)"
  shows "handle_update conv_handler e u (Some CASH, w) =
           (Some CARD, w\<lparr>user_data := (user_data w)(''Cash'' \<mapsto> message_text m),
                         trace := trace w @ [Reply (ustr ''Enter Card amount:'')]\<rparr>)"
    and "handle_update conv_handler e u (Some CARD, w) =
           (Some UBER, w\<lparr>user_data := (user_data w)(''Card'' \<mapsto> message_text m),
                         trace := trace w @ [Reply (ustr ''Enter Uber amount:'')]\<rparr>)"
    and "handle_update conv_handler e u (Some UBER, w) =
           (Some DELIVEROO, w\<lparr>user_data := (user_data w)(''Uber'' \<mapsto> message_text m),
                         trace := trace w @ [Reply (ustr ''Enter Deliveroo amount:'')]\<rparr>)"
    and "handle_update conv_handler e u (Some DELIVEROO, w) =
           (Some APP, w\<lparr>user_data := (user_data w)(''Deliveroo'' \<mapsto> message_text m),
                         trace := trace w @ [Reply (ustr ''Enter App amount:'')]\<rparr>)"
  using v f effective_new [OF m] m
  by (simp_all add: handle_update_def select_handler_def conv_handler_def cash_def card_amount_def
      uber_def deliveroo_def reply_text_def setitem_def)

lemma step_app:
  assumes m: "message u = Some m"
    and f: "check_filter TEXT (Some m)" "\<not> check_filter COMMAND (Some m)"
  shows "handle_update conv_handler e u (Some APP, w) =
     (case app_amount e u w of
        (Inl err, w') \<Rightarrow> (Some APP, w')
      | (Inr new_state, w') \<Rightarrow> (if new_state = END then None else Some new_state, w'))"
proof -
  have "select_handler conv_handler (Some APP) u =
      Some (MessageHandler (And_filter TEXT (Not_filter COMMAND)) app_amount)"
    using f effective_new [OF m] by (simp add: select_handler_def conv_handler_def)
  then show ?thesis by (simp add: handle_update_def split: prod.splits sum.splits)
qed


text \<open>
  One update with a plain text the validator rejects: a new message is answered with the
  prompt of the state, and on an edited one the handler raises before it does anything.
\<close>

lemma step_invalid:
  assumes "effective_message u = Some m" "\<not> is_number (message_text m)" "st \<noteq> END"
    "check_filter TEXT (Some m)" "\<not> check_filter COMMAND (Some m)"
  shows "\<exists>field. handle_update conv_handler e u (Some st, w) =
           (Some st, if message u = None then w
                     else w\<lparr>trace := trace w @ [Reply (invalid_prompt field)]\<rparr>)"
proof -
  from effective_cases [OF assms(1)]
  show ?thesis
  proof
    assume "message u = Some m"
    then show ?thesis using assms
      by (cases st)
        (auto simp: handle_update_def select_handler_def conv_handler_def cash_def card_amount_def
          uber_def deliveroo_def app_amount_def reply_text_def)
  next
    assume "message u = None \<and> edited_message u = Some m"
    then show ?thesis using assms
      by (cases st)
        (auto simp: handle_update_def select_handler_def conv_handler_def cash_def card_amount_def
          uber_def deliveroo_def app_amount_def)
  qed
qed

text \<open>
  One update with the cancel command, in each of the five states: a new message ends the
  conversation; on an edited one the handler raises after it cleared the dictionary, and
  the state stays.
\<close>

lemma cancel_step:
  assumes "st \<noteq> END" "effective_message u = Some m" "check_command ''cancel'' m"
  shows "handle_update conv_handler e u (Some st, w) =
           (if message u = None then (Some st, w\<lparr>user_data := Map.empty\<rparr>)
            else (None, w\<lparr>user_data := Map.empty,
                           trace := trace w @ [Reply (ustr ''Entry cancelled.'')]\<rparr>))"
proof -
  have "check_filter COMMAND (effective_message u)"
    unfolding assms(2) using assms(3) by (rule command_is_COMMAND)
  moreover have "check_update (CommandHandler ''cancel'' cancel) u"
    using assms(2,3) by simp
  ultimately have "select_handler conv_handler (Some st) u = Some (CommandHandler ''cancel'' cancel)"
    using select_awaiting [OF assms(1), of u] by auto
  then show ?thesis
    by (cases "message u") (simp_all add: handle_update_def cancel_def reply_text_def clear_def)
qed

section \<open>The validator accepts exactly the float literals\<close>

subsection \<open>The decimal scanner\<close>

text \<open>
  The scanner of the mantissa and of the exponent in terms of the longest runs of digits:
  what it consumes, when it fails, and that what it consumes is a decimal number.
\<close>

lemma zero_is_digit: "is_zero c \<Longrightarrow> is_digit c"
  by (simp add: is_zero_def is_digit_def)

lemma dropWhile_zero_digit: "dropWhile is_digit (dropWhile is_zero s) = dropWhile is_digit s"
  by (induction s) (auto simp: zero_is_digit)

lemma length_dropWhile_le': "length (dropWhile P s) \<le> length s"
  by (induction s) auto

lemma dropWhile_length_eq: "length (dropWhile P s) = length s \<longleftrightarrow> takeWhile P s = []"
proof (cases s)
  case Nil then show ?thesis by simp
next
  case (Cons c cs)
  have "length (dropWhile P cs) \<le> length cs" by (rule length_dropWhile_le')
  then show ?thesis using Cons by auto
qed

text \<open>The exponent scanner consumes an exponent with at least one digit, and nothing else.\<close>

lemma dg_exponent_eq:
  "dg_exponent s00 =
     (case s00 of
        [] \<Rightarrow> []
      | c # s \<Rightarrow>
          if (c = CHR ''e'' \<or> c = CHR ''E'') \<and> takeWhile is_digit (skip_sign s) \<noteq> []
          then dropWhile is_digit (skip_sign s) else s00)"
proof (cases s00)
  case Nil
  then show ?thesis by (simp add: dg_exponent_def)
next
  case (Cons c s)
  let ?s1 = "skip_sign s"
  let ?s2 = "dropWhile is_zero ?s1"
  let ?s3 = "dropWhile is_digit ?s2"
  have s3: "?s3 = dropWhile is_digit ?s1" by (rule dropWhile_zero_digit)
  have le: "length ?s3 \<le> length ?s2" "length ?s2 \<le> length ?s1"
    by (rule length_dropWhile_le')+
  have "(length ?s3 = length ?s2 \<and> \<not> length ?s2 < length ?s1) \<longleftrightarrow>
        length (dropWhile is_digit ?s1) = length ?s1"
    using le s3 by auto
  then have c: "(length ?s3 = length ?s2 \<and> \<not> length ?s2 < length ?s1) \<longleftrightarrow>
        takeWhile is_digit ?s1 = []"
    by (simp add: dropWhile_length_eq)
  show ?thesis
    using Cons c s3 by (auto simp: dg_exponent_def Let_def)
qed

lemma length_take_drop: "length (takeWhile P s) + length (dropWhile P s) = length s"
  by (induction s) auto

lemma dg_mantissa_spec:
  assumes "dg_mantissa s = (lz, nd, fl, r)"
  shows "r = mant_rest s \<and> fl = length (frac_digits s) \<and>
         nd \<le> length (int_digits s) + length (frac_digits s) \<and>
         ((nd = 0 \<and> \<not> lz) \<longleftrightarrow> (int_digits s = [] \<and> frac_digits s = []))"
proof -
  define s1 where "s1 = dropWhile is_zero s"
  define s2 where "s2 = dropWhile is_digit s1"
  have s2: "s2 = after_int s" by (simp add: s2_def s1_def after_int_def dropWhile_zero_digit)
  have l1: "length s1 \<le> length s" and l2: "length s2 \<le> length s1"
    unfolding s1_def s2_def by (rule length_dropWhile_le')+
  have li: "length (int_digits s) + length s2 = length s"
    using length_take_drop [of is_digit s] by (simp add: int_digits_def s2 after_int_def)
  have i0: "int_digits s = [] \<longleftrightarrow> length s2 = length s"
    using li by auto
  show ?thesis
  proof (cases "\<exists>s3. s2 = CHR ''.'' # s3")
    case False
    then have res: "dg_mantissa s = (length s1 < length s, length s1 - length s2, 0, s2)"
      unfolding dg_mantissa_def Let_def s1_def [symmetric] s2_def [symmetric]
      by (auto split: list.splits)
    have fr: "frac_digits s = []" "mant_rest s = s2"
      using False s2 by (auto simp: frac_digits_def mant_rest_def split: list.splits)
    from assms res have eqs: "lz = (length s1 < length s)" "nd = length s1 - length s2"
      "fl = 0" "r = s2" by auto
    have d: "(nd = 0 \<and> \<not> lz) \<longleftrightarrow> (int_digits s = [] \<and> frac_digits s = [])"
      unfolding eqs i0 using fr(1) l1 l2 by auto
    have c: "nd \<le> length (int_digits s) + length (frac_digits s)"
      unfolding eqs using l1 l2 li by arith
    show ?thesis using eqs fr c d by simp
  next
    case True
    then obtain s3 where s3: "s2 = CHR ''.'' # s3" by blast
    define nd0 where "nd0 = length s1 - length s2"
    define s4 where "s4 = (if nd0 = 0 then dropWhile is_zero s3 else s3)"
    define s5 where "s5 = dropWhile is_digit s4"
    have s5: "s5 = dropWhile is_digit s3" by (simp add: s5_def s4_def dropWhile_zero_digit)
    have l4: "length s4 \<le> length s3"
      using length_dropWhile_le' [of is_zero s3] by (simp add: s4_def)
    have l5: "length s5 \<le> length s4" unfolding s5_def by (rule length_dropWhile_le')
    have res: "dg_mantissa s = (length s1 < length s \<or> length s4 < length s3,
        nd0 + (length s4 - length s5), length s3 - length s5, s5)"
      using s3 unfolding s5_def s4_def nd0_def s2_def s1_def
      by (simp add: dg_mantissa_def Let_def)
    have fr: "frac_digits s = takeWhile is_digit s3" "mant_rest s = dropWhile is_digit s3"
      using s3 s2 by (auto simp: frac_digits_def mant_rest_def split: list.splits)
    have lf: "length (frac_digits s) + length s5 = length s3"
      using length_take_drop [of is_digit s3] fr s5 by simp
    have f0: "frac_digits s = [] \<longleftrightarrow> length s5 = length s3" using lf by auto
    from assms res have eqs: "lz = (length s1 < length s \<or> length s4 < length s3)"
      "nd = nd0 + (length s4 - length s5)" "fl = length s3 - length s5" "r = s5"
      by auto
    have a: "r = mant_rest s" using eqs(4) fr(2) s5 by simp
    have b: "fl = length (frac_digits s)" using eqs(3) lf by arith
    have c: "nd \<le> length (int_digits s) + length (frac_digits s)"
      unfolding eqs(2) nd0_def using l1 l2 l4 l5 li lf by arith
    have d: "(nd = 0 \<and> \<not> lz) \<longleftrightarrow> (int_digits s = [] \<and> frac_digits s = [])"
      unfolding eqs(1,2) i0 f0 nd0_def using l1 l2 l4 l5 by arith
    show ?thesis using a b c d by blast
  qed
qed

lemma skip_sign_split: "\<exists>sg. is_sign sg \<and> s = sg @ skip_sign s"
  by (cases s) (auto simp: skip_sign_def is_sign_def)

lemma length_skip_sign: "length (skip_sign s) \<le> length s"
  by (cases s) (auto simp: skip_sign_def)

lemma mantissa_split: "b = int_digits b @ frac_part b @ mant_rest b"
proof -
  have "b = int_digits b @ after_int b" by (simp add: int_digits_def after_int_def)
  moreover have "after_int b = frac_part b @ mant_rest b"
    by (auto simp: frac_part_def mant_rest_def split: list.splits)
  ultimately show ?thesis by simp
qed

lemma digits_takeWhile: "digits (takeWhile is_digit s)"
  by (auto simp: digits_def dest: set_takeWhileD)

lemma frac_part_ok: "fraction_part (frac_part b)"
  by (auto simp: fraction_part_def frac_part_def digits_takeWhile split: list.splits)

lemma frac_digits_part: "length (frac_part b) = (if frac_part b = [] then 0 else Suc (length (frac_digits b)))"
  by (auto simp: frac_part_def frac_digits_def split: list.splits)

lemma frac_digits_nonempty: "frac_digits b \<noteq> [] \<Longrightarrow> 1 < length (frac_part b)"
  by (auto simp: frac_part_def frac_digits_def split: list.splits if_splits)

lemma frac_digits_le: "length (frac_digits b) \<le> length (frac_part b)"
  by (auto simp: frac_part_def frac_digits_def split: list.splits)

lemma exponent_split: "\<exists>ex. r = ex @ dg_exponent r \<and> exponent_part ex"
proof (cases r)
  case Nil
  then show ?thesis by (simp add: dg_exponent_eq exponent_part_def)
next
  case (Cons c s)
  show ?thesis
  proof (cases "(c = CHR ''e'' \<or> c = CHR ''E'') \<and> takeWhile is_digit (skip_sign s) \<noteq> []")
    case False
    then have "dg_exponent r = r" using Cons by (auto simp: dg_exponent_eq)
    then show ?thesis by (auto simp: exponent_part_def)
  next
    case True
    then have e: "dg_exponent r = dropWhile is_digit (skip_sign s)"
      using Cons by (simp add: dg_exponent_eq)
    obtain sg where sg: "is_sign sg" "s = sg @ skip_sign s" using skip_sign_split by blast
    let ?d = "takeWhile is_digit (skip_sign s)"
    have "r = (c # sg @ ?d) @ dg_exponent r"
      using Cons sg(2) e by simp
    moreover have "exponent_part (c # sg @ ?d)"
      unfolding exponent_part_def using True sg(1) digits_takeWhile by blast
    ultimately show ?thesis by blast
  qed
qed

lemma dg_strtod_eq:
  assumes "length s00 \<le> MAX_DIGITS"
  shows "dg_strtod s00 =
     (if int_digits (skip_sign s00) = [] \<and> frac_digits (skip_sign s00) = [] then None
      else Some (dg_exponent (mant_rest (skip_sign s00))))"
proof -
  let ?b = "skip_sign s00"
  obtain lz nd fl r where m: "dg_mantissa ?b = (lz, nd, fl, r)" by (cases "dg_mantissa ?b") auto
  note sp = dg_mantissa_spec [OF m]
  have "length ?b = length (int_digits ?b) + length (frac_part ?b) + length (mant_rest ?b)"
    using mantissa_split [of ?b] by (metis length_append add.assoc)
  then have "length (int_digits ?b) + length (frac_digits ?b) \<le> length s00"
    using frac_digits_le [of ?b] length_skip_sign [of s00] by arith
  then have "nd \<le> MAX_DIGITS" "fl \<le> MAX_DIGITS" using sp assms by auto
  then show ?thesis using sp m by (auto simp: dg_strtod_def)
qed

lemma dg_strtod_sound:
  assumes "length s \<le> MAX_DIGITS" "dg_strtod s = Some e"
  shows "\<exists>body. s = body @ e \<and> float_body body"
proof -
  let ?b = "skip_sign s"
  from assms have nz: "int_digits ?b \<noteq> [] \<or> frac_digits ?b \<noteq> []"
    and e: "e = dg_exponent (mant_rest ?b)"
    by (auto simp: dg_strtod_eq split: if_splits)
  obtain sg where sg: "is_sign sg" "s = sg @ ?b" using skip_sign_split by blast
  obtain ex where ex: "mant_rest ?b = ex @ e" "exponent_part ex"
    using exponent_split [of "mant_rest ?b"] e by auto
  let ?t = "int_digits ?b @ frac_part ?b @ ex"
  have "decimal_text ?t"
    unfolding decimal_text_def
    using nz ex(2) frac_part_ok [of ?b] frac_digits_nonempty [of ?b] digits_takeWhile [of ?b]
    by (auto simp: int_digits_def)
  then have "float_body (sg @ ?t)" unfolding float_body_def using sg(1) by blast
  moreover have "s = (sg @ ?t) @ e"
    using sg(2) mantissa_split [of ?b] ex(1) by (metis append.assoc)
  ultimately show ?thesis by blast
qed

text \<open>Conversely a decimal number followed by white space is consumed whole.\<close>

lemma space_not:
  assumes "Py_ISSPACE c"
  shows "\<not> is_digit c" "c \<noteq> CHR ''.''" "c \<noteq> CHR ''e''" "c \<noteq> CHR ''E''" "c \<noteq> CHR ''+''"
    "c \<noteq> CHR ''-''" "c \<noteq> CHR ''_''"
  using assms by (auto simp: Py_ISSPACE_def is_digit_def)

lemma digit_not:
  assumes "is_digit c"
  shows "c \<noteq> CHR ''.''" "c \<noteq> CHR ''e''" "c \<noteq> CHR ''E''" "c \<noteq> CHR ''+''" "c \<noteq> CHR ''-''"
    "c \<noteq> CHR ''_''" "c \<noteq> CHR 0x00" "\<not> Py_ISSPACE c"
  using assms by (auto simp: Py_ISSPACE_def is_digit_def)

lemma take_digits_append:
  assumes "digits a" "r = [] \<or> \<not> is_digit (hd r)"
  shows "takeWhile is_digit (a @ r) = a" "dropWhile is_digit (a @ r) = r"
proof -
  have "takeWhile is_digit r = []" "dropWhile is_digit r = r"
    using assms(2) by (cases r; auto)+
  then show "takeWhile is_digit (a @ r) = a" "dropWhile is_digit (a @ r) = r"
    using assms(1) by (simp_all add: digits_def takeWhile_append2 dropWhile_append2)
qed

lemma dg_exponent_complete:
  assumes "exponent_part ex" "spaces ws"
  shows "dg_exponent (ex @ ws) = ws"
proof (cases "ex = []")
  case True
  then show ?thesis using assms(2)
    by (cases ws) (auto simp: dg_exponent_eq spaces_def space_not)
next
  case False
  then obtain c sg d where ex: "ex = c # sg @ d" "c = CHR ''e'' \<or> c = CHR ''E''" "is_sign sg"
    "digits d" "d \<noteq> []"
    using assms(1) by (auto simp: exponent_part_def)
  have hd: "is_digit (hd d)" using ex(4,5) by (cases d) (auto simp: digits_def)
  have sk: "skip_sign (sg @ d @ ws) = d @ ws"
    using ex(3,5) hd digit_not [OF hd]
    by (cases d) (auto simp: is_sign_def skip_sign_def)
  have nd: "ws = [] \<or> \<not> is_digit (hd ws)"
    using assms(2) by (cases ws) (auto simp: spaces_def space_not)
  show ?thesis
    using ex(1,2,5) sk take_digits_append [OF ex(4) nd]
    by (simp add: dg_exponent_eq)
qed

lemma dg_strtod_complete:
  assumes len: "length (sg @ t @ ws) \<le> MAX_DIGITS"
    and sg: "is_sign sg" and t: "decimal_text t" and ws: "spaces ws"
  shows "dg_strtod (sg @ t @ ws) = Some ws"
proof -
  from t obtain a fr ex where d: "t = a @ fr @ ex" "digits a" "fraction_part fr"
    "a \<noteq> [] \<or> 1 < length fr" "exponent_part ex"
    by (auto simp: decimal_text_def)
  define r0 where "r0 = ex @ ws"
  have r0: "r0 = [] \<or> (\<not> is_digit (hd r0) \<and> hd r0 \<noteq> CHR ''.'')"
  proof (cases "ex = []")
    case True
    then show ?thesis using ws by (cases ws) (auto simp: r0_def spaces_def space_not)
  next
    case False
    then show ?thesis using d(5) by (auto simp: r0_def exponent_part_def is_digit_def)
  qed
  define b0 where "b0 = a @ fr @ r0"
  have frr: "fr @ r0 = [] \<or> \<not> is_digit (hd (fr @ r0))"
    using d(3) r0 by (auto simp: fraction_part_def is_digit_def)
  have hdb: "b0 \<noteq> [] \<and> hd b0 \<noteq> CHR ''+'' \<and> hd b0 \<noteq> CHR ''-''"
  proof (cases "a = []")
    case False
    then have "is_digit (hd a)" using d(2) by (cases a) (auto simp: digits_def)
    then show ?thesis using False digit_not by (cases a) (auto simp: b0_def)
  next
    case True
    then obtain b where "fr = CHR ''.'' # b" using d(3,4) by (auto simp: fraction_part_def)
    then show ?thesis using True by (simp add: b0_def)
  qed
  have sk: "skip_sign (sg @ t @ ws) = b0"
  proof -
    have "sg @ t @ ws = sg @ b0" by (simp add: d(1) b0_def r0_def)
    then show ?thesis using sg hdb by (cases b0) (auto simp: is_sign_def skip_sign_def)
  qed
  have ai: "int_digits b0 = a" "after_int b0 = fr @ r0"
    using take_digits_append [OF d(2) frr] by (simp_all add: int_digits_def after_int_def b0_def)
  have fm: "mant_rest b0 = r0 \<and> (a = [] \<longrightarrow> frac_digits b0 \<noteq> [])"
  proof (cases "fr = []")
    case True
    then show ?thesis using ai(2) r0 d(4)
      by (cases r0) (auto simp: mant_rest_def frac_digits_def)
  next
    case False
    then obtain b where b: "fr = CHR ''.'' # b" "digits b" using d(3) by (auto simp: fraction_part_def)
    have nd: "r0 = [] \<or> \<not> is_digit (hd r0)" using r0 by auto
    show ?thesis using ai(2) b(1) take_digits_append [OF b(2) nd] d(4)
      by (auto simp: mant_rest_def frac_digits_def)
  qed
  have "dg_strtod (sg @ t @ ws) = Some (dg_exponent r0)"
    using fm ai(1) by (auto simp: dg_strtod_eq [OF len] sk)
  then show ?thesis by (simp add: r0_def dg_exponent_complete [OF d(5) ws])
qed

subsection \<open>Infinities and NaN\<close>

lemma cim_eq:
  "case_insensitive_match s t \<longleftrightarrow> length t \<le> length s \<and> map Py_TOLOWER (take (length t) s) = t"
  by (induction s t rule: case_insensitive_match.induct) auto

lemma tolower_fixed:
  assumes "is_digit c \<or> Py_ISSPACE c \<or> c \<in> set ''.+-_''"
  shows "Py_TOLOWER c = c"
  using assms by (auto simp: is_digit_def Py_ISSPACE_def Py_TOLOWER_def)

lemma tolower_letter:
  assumes "Py_TOLOWER c \<in> set ''infatyINFATY''"
  shows "\<not> is_digit c" "\<not> Py_ISSPACE c" "c \<notin> set ''.+-_''"
proof -
  show "\<not> is_digit c"
  proof
    assume d: "is_digit c"
    then have "Py_TOLOWER c = c" by (simp add: tolower_fixed)
    with assms have "c \<in> set ''infatyINFATY''" by simp
    with d show False by (auto simp: is_digit_def)
  qed
  show "\<not> Py_ISSPACE c"
  proof
    assume d: "Py_ISSPACE c"
    then have "Py_TOLOWER c = c" by (simp add: tolower_fixed)
    with assms have "c \<in> set ''infatyINFATY''" by simp
    with d show False by (auto simp: Py_ISSPACE_def)
  qed
  show "c \<notin> set ''.+-_''"
  proof
    assume d: "c \<in> set ''.+-_''"
    then have "Py_TOLOWER c = c" by (simp add: tolower_fixed)
    with assms have "c \<in> set ''infatyINFATY''" by simp
    with d show False by auto
  qed
qed

lemma special_cases:
  assumes "special_text t"
  shows "t \<noteq> [] \<and> Py_TOLOWER (hd t) \<in> set ''in''"
  using assms by (cases t) (auto simp: special_text_def)

lemma parse_inf_or_nan_sound:
  assumes "parse_inf_or_nan p = Some (k, e)"
  shows "\<exists>body. p = body @ e \<and> float_body body"
proof -
  let ?s = "skip_sign p"
  obtain sg where sg: "is_sign sg" "p = sg @ ?s" using skip_sign_split by blast
  have l3: "length ''inf'' = 3" "length ''nan'' = 3" "length ''inity'' = 5" by simp_all
  have "\<exists>rest. ?s = rest @ e \<and> special_text rest"
  proof (cases "case_insensitive_match ?s ''inf''")
    case inf: True
    then have i: "3 \<le> length ?s" "map Py_TOLOWER (take 3 ?s) = ''inf''"
      unfolding cim_eq l3 by blast+
    show ?thesis
    proof (cases "case_insensitive_match (drop 3 ?s) ''inity''")
      case True
      then have j: "5 \<le> length (drop 3 ?s)" "map Py_TOLOWER (take 5 (drop 3 ?s)) = ''inity''"
        unfolding cim_eq l3 by blast+
      from assms inf True have e: "e = drop 5 (drop 3 ?s)"
        by (simp add: parse_inf_or_nan_def Let_def)
      have "?s = (take 3 ?s @ take 5 (drop 3 ?s)) @ e"
        unfolding e by (simp del: drop_drop)
      moreover have "special_text (take 3 ?s @ take 5 (drop 3 ?s))"
        unfolding special_text_def using i(2) j(2) by (simp del: take_drop drop_drop)
      ultimately show ?thesis by blast
    next
      case False
      with assms inf have e: "e = drop 3 ?s" by (simp add: parse_inf_or_nan_def Let_def)
      have "?s = take 3 ?s @ e" unfolding e by simp
      moreover have "special_text (take 3 ?s)" unfolding special_text_def using i(2) by simp
      ultimately show ?thesis by blast
    qed
  next
    case False
    with assms have n: "case_insensitive_match ?s ''nan''" and e: "e = drop 3 ?s"
      by (auto simp: parse_inf_or_nan_def Let_def split: if_splits)
    from n have i: "map Py_TOLOWER (take 3 ?s) = ''nan''" unfolding cim_eq l3 by blast
    have "?s = take 3 ?s @ e" unfolding e by simp
    moreover have "special_text (take 3 ?s)" unfolding special_text_def using i by simp
    ultimately show ?thesis by blast
  qed
  then obtain rest where r: "?s = rest @ e" "special_text rest" by blast
  have "float_body (sg @ rest)" unfolding float_body_def using sg(1) r(2) by blast
  moreover have "p = (sg @ rest) @ e" using sg(2) r(1) by (metis append.assoc)
  ultimately show ?thesis by blast
qed

lemma spaces_no_match:
  assumes "spaces ws" "Py_TOLOWER t = t" "\<not> Py_ISSPACE t"
  shows "\<not> case_insensitive_match ws (t # ts)"
proof (cases ws)
  case Nil
  then show ?thesis by simp
next
  case (Cons c cs)
  then have "Py_ISSPACE c" using assms(1) by (simp add: spaces_def)
  then have "Py_TOLOWER c = c" by (simp add: tolower_fixed)
  then show ?thesis using Cons assms(3) \<open>Py_ISSPACE c\<close> by auto
qed

lemma special_skip_sign:
  assumes "is_sign sg" "special_text rest"
  shows "skip_sign (sg @ rest @ ws) = rest @ ws"
proof -
  from special_cases [OF assms(2)] obtain c cs where r: "rest = c # cs" "Py_TOLOWER c \<in> set ''in''"
    by (cases rest) auto
  then have "Py_TOLOWER c \<in> set ''infatyINFATY''" by auto
  from tolower_letter(3) [OF this] have "c \<noteq> CHR ''+''" "c \<noteq> CHR ''-''" by auto
  then show ?thesis using assms(1) r(1) by (auto simp: is_sign_def skip_sign_def)
qed

lemma special_not_decimal:
  assumes "is_sign sg" "special_text rest"
  shows "dg_strtod (sg @ rest @ ws) = None"
proof -
  let ?b = "rest @ ws"
  from special_cases [OF assms(2)] obtain c cs where r: "rest = c # cs" "Py_TOLOWER c \<in> set ''in''"
    by (cases rest) auto
  then have "Py_TOLOWER c \<in> set ''infatyINFATY''" by auto
  from tolower_letter(1,3) [OF this] have c: "\<not> is_digit c" "c \<noteq> CHR ''.''" by auto
  have "int_digits ?b = []" "frac_digits ?b = []"
    using r(1) c by (simp_all add: int_digits_def frac_digits_def after_int_def)
  moreover obtain lz nd fl r' where m: "dg_mantissa ?b = (lz, nd, fl, r')"
    by (cases "dg_mantissa ?b") auto
  ultimately have "nd = 0 \<and> \<not> lz" using dg_mantissa_spec [OF m] by simp
  then show ?thesis
    using m by (simp add: dg_strtod_def special_skip_sign [OF assms])
qed

lemma special_complete:
  assumes "is_sign sg" "special_text rest" "spaces ws"
  shows "\<exists>k. parse_inf_or_nan (sg @ rest @ ws) = Some (k, ws)"
proof -
  have i: "Py_TOLOWER (CHR ''i'') = CHR ''i''" "\<not> Py_ISSPACE (CHR ''i'')"
    by (simp_all add: Py_TOLOWER_def Py_ISSPACE_def)
  note nm = spaces_no_match [OF assms(3) i]
  have P: "parse_inf_or_nan (sg @ rest @ ws) =
     (if case_insensitive_match (rest @ ws) ''inf'' then
        (if case_insensitive_match (drop 3 (rest @ ws)) ''inity''
         then Some (Infinity, drop 5 (drop 3 (rest @ ws)))
         else Some (Infinity, drop 3 (rest @ ws)))
      else if case_insensitive_match (rest @ ws) ''nan'' then Some (NaN, drop 3 (rest @ ws))
      else None)"
    unfolding parse_inf_or_nan_def special_skip_sign [OF assms(1,2)] Let_def by simp
  from assms(2) consider (inf) "map Py_TOLOWER rest = ''inf''"
    | (infinity) "map Py_TOLOWER rest = ''infinity''" | (nan) "map Py_TOLOWER rest = ''nan''"
    by (auto simp: special_text_def)
  then show ?thesis
  proof cases
    case inf
    then obtain a b c where "rest = [a, b, c]" "Py_TOLOWER a = CHR ''i''" "Py_TOLOWER b = CHR ''n''"
      "Py_TOLOWER c = CHR ''f''" by (auto simp: map_eq_Cons_conv)
    then show ?thesis unfolding P using nm by simp
  next
    case infinity
    then obtain a b c d e f g h where "rest = [a, b, c, d, e, f, g, h]"
      "Py_TOLOWER a = CHR ''i''" "Py_TOLOWER b = CHR ''n''" "Py_TOLOWER c = CHR ''f''"
      "Py_TOLOWER d = CHR ''i''" "Py_TOLOWER e = CHR ''n''" "Py_TOLOWER f = CHR ''i''"
      "Py_TOLOWER g = CHR ''t''" "Py_TOLOWER h = CHR ''y''"
      by (auto simp: map_eq_Cons_conv)
    then show ?thesis unfolding P by simp
  next
    case nan
    then obtain a b c where "rest = [a, b, c]" "Py_TOLOWER a = CHR ''n''" "Py_TOLOWER b = CHR ''a''"
      "Py_TOLOWER c = CHR ''n''" by (auto simp: map_eq_Cons_conv)
    then show ?thesis unfolding P by simp
  qed
qed

subsection \<open>White space around the literal\<close>

text \<open>
  No character of a literal is white space, an underscore, a NUL or a question mark, and
  all are ASCII; so stripping white space and scanning accepts exactly a literal between
  white space.
\<close>

lemma tolower_cases: "Py_TOLOWER c = c \<or> (65 \<le> (of_char c :: nat) \<and> (of_char c :: nat) \<le> 90)"
  by (simp add: Py_TOLOWER_def)

lemma body_char_props:
  assumes "body_char c"
  shows "\<not> Py_ISSPACE c" "c \<noteq> CHR ''_''" "c \<noteq> CHR 0x00" "c \<noteq> CHR ''?''"
    "(of_char c :: nat) < 127"
proof -
  consider (d) "is_digit c" | (p) "c \<in> set ''.+-eE''" | (l) "c \<in> set ''infaty''"
    | (u) "65 \<le> (of_char c :: nat) \<and> (of_char c :: nat) \<le> 90"
    using assms tolower_cases [of c] by (auto simp: body_char_def)
  then have "\<not> Py_ISSPACE c \<and> c \<noteq> CHR ''_'' \<and> c \<noteq> CHR 0x00 \<and>
      c \<noteq> CHR ''?'' \<and> (of_char c :: nat) < 127"
  proof cases
    case d then show ?thesis by (auto simp: is_digit_def Py_ISSPACE_def)
  next
    case p then show ?thesis by (auto simp: Py_ISSPACE_def)
  next
    case l then show ?thesis by (auto simp: Py_ISSPACE_def)
  next
    case u then show ?thesis by (auto simp: Py_ISSPACE_def)
  qed
  then show "\<not> Py_ISSPACE c" "c \<noteq> CHR ''_''" "c \<noteq> CHR 0x00"
    "c \<noteq> CHR ''?''" "(of_char c :: nat) < 127" by blast+
qed

lemma float_body_chars:
  assumes "float_body b"
  shows "b \<noteq> []" "\<forall>c \<in> set b. body_char c"
proof -
  from assms obtain sg rest where b: "b = sg @ rest" "is_sign sg" "decimal_text rest \<or> special_text rest"
    by (auto simp: float_body_def)
  have sgc: "\<forall>c \<in> set sg. body_char c" using b(2) by (auto simp: is_sign_def body_char_def)
  have "rest \<noteq> [] \<and> (\<forall>c \<in> set rest. body_char c)"
  proof (cases "decimal_text rest")
    case True
    then obtain a fr ex where d: "rest = a @ fr @ ex" "digits a" "fraction_part fr"
      "a \<noteq> [] \<or> 1 < length fr" "exponent_part ex"
      by (auto simp: decimal_text_def)
    have "\<forall>c \<in> set a. body_char c" using d(2) by (auto simp: digits_def body_char_def)
    moreover have "\<forall>c \<in> set fr. body_char c"
      using d(3) by (auto simp: fraction_part_def digits_def body_char_def)
    moreover have "\<forall>c \<in> set ex. body_char c"
      using d(5) by (auto simp: exponent_part_def is_sign_def digits_def body_char_def)
    ultimately show ?thesis using d(1,4) by auto
  next
    case False
    then have sp: "special_text rest" using b(3) by simp
    then have "\<forall>c \<in> set (map Py_TOLOWER rest). c \<in> set ''infaty''"
      by (auto simp: special_text_def)
    then have "\<forall>c \<in> set rest. body_char c" by (simp add: body_char_def)
    then show ?thesis using special_cases [OF sp] by simp
  qed
  then show "b \<noteq> []" "\<forall>c \<in> set b. body_char c" using b(1) sgc by auto
qed

lemma suffix_all:
  assumes "s = x @ e" "length e \<le> length (takeWhile P (rev s))"
  shows "\<forall>c \<in> set e. P c"
proof (rule ccontr)
  assume n: "\<not> (\<forall>c \<in> set e. P c)"
  then have "\<not> (\<forall>c \<in> set (rev e). P c)" by simp
  then have t: "takeWhile P (rev s) = takeWhile P (rev e)"
    using assms(1) n by (auto simp: takeWhile_append)
  have "takeWhile P (rev e) \<noteq> rev e" using n by (simp add: takeWhile_eq_all_conv)
  moreover have "length (takeWhile P (rev e)) \<le> length (rev e)" by (rule length_takeWhile_le)
  moreover have "length (takeWhile P (rev e)) = length (rev e) \<Longrightarrow> takeWhile P (rev e) = rev e"
    by (metis takeWhile_eq_take take_all order_refl)
  ultimately have "length (takeWhile P (rev e)) < length e" by fastforce
  with assms(2) t show False by simp
qed

lemma ascii_strtod_sound:
  assumes "length s \<le> MAX_DIGITS" "ascii_strtod s = Some (k, e)"
  shows "\<exists>body. s = body @ e \<and> float_body body"
proof (cases "dg_strtod s")
  case None
  then have "parse_inf_or_nan s = Some (k, e)" using assms(2) by (simp add: ascii_strtod_def)
  then show ?thesis by (rule parse_inf_or_nan_sound)
next
  case (Some e')
  then have "e' = e" using assms(2) by (simp add: ascii_strtod_def)
  then show ?thesis using dg_strtod_sound [OF assms(1)] Some by simp
qed

lemma ascii_strtod_complete:
  assumes "length (body @ ws) \<le> MAX_DIGITS" "float_body body" "spaces ws"
  shows "\<exists>k. ascii_strtod (body @ ws) = Some (k, ws)"
proof -
  from assms(2) obtain sg rest where b: "body = sg @ rest" "is_sign sg"
    "decimal_text rest \<or> special_text rest" by (auto simp: float_body_def)
  show ?thesis
  proof (cases "decimal_text rest")
    case True
    have "dg_strtod (sg @ rest @ ws) = Some ws"
      using assms(1) b(1) by (intro dg_strtod_complete [OF _ b(2) True assms(3)]) simp
    then show ?thesis by (simp add: ascii_strtod_def b(1))
  next
    case False
    then have sp: "special_text rest" using b(3) by simp
    from special_not_decimal [OF b(2) sp, of ws] special_complete [OF b(2) sp assms(3)]
    show ?thesis by (auto simp: ascii_strtod_def b(1))
  qed
qed

lemma inner_sound:
  assumes len: "length t \<le> MAX_DIGITS" and acc: "float_from_string_inner t = Inr k"
  shows "trimmed_body t"
proof -
  define s where "s = dropWhile Py_ISSPACE t"
  define trailing where "trailing = min (length (takeWhile Py_ISSPACE (rev s))) (length s - 1)"
  from acc have ne: "s \<noteq> []"
    by (auto simp: float_from_string_inner_def Let_def s_def split: if_splits)
  from acc ne obtain e where sc: "ascii_strtod s = Some (k, e)" and le: "length e = trailing"
    unfolding float_from_string_inner_def Let_def s_def [symmetric] trailing_def [symmetric]
    by (auto split: option.splits if_splits)
  have "length s \<le> MAX_DIGITS"
    using len length_dropWhile_le' [of Py_ISSPACE t] by (simp add: s_def)
  from ascii_strtod_sound [OF this sc] obtain body where b: "s = body @ e" "float_body body"
    by blast
  have "length e \<le> length (takeWhile Py_ISSPACE (rev s))" using le by (simp add: trailing_def)
  from suffix_all [OF b(1) this] have e: "spaces e" by (simp add: spaces_def)
  have "t = takeWhile Py_ISSPACE t @ body @ e"
    using b(1) by (metis s_def takeWhile_dropWhile_id)
  moreover have "spaces (takeWhile Py_ISSPACE t)"
    by (auto simp: spaces_def dest: set_takeWhileD)
  ultimately show ?thesis unfolding trimmed_body_def using e b(2) by blast
qed

lemma inner_complete:
  assumes len: "length t \<le> MAX_DIGITS" and tb: "trimmed_body t"
  shows "\<exists>k. float_from_string_inner t = Inr k"
proof -
  from tb obtain ws1 body ws2 where t: "t = ws1 @ body @ ws2" "spaces ws1" "spaces ws2"
    "float_body body" by (auto simp: trimmed_body_def)
  note bc = float_body_chars [OF t(4)]
  have hd: "\<not> Py_ISSPACE (hd body)" and la: "\<not> Py_ISSPACE (last body)"
    using bc body_char_props(1) by (simp_all add: hd_in_set last_in_set)
  have d: "dropWhile Py_ISSPACE t = body @ ws2"
  proof -
    have "dropWhile Py_ISSPACE t = dropWhile Py_ISSPACE (body @ ws2)"
      using t(1,2) by (simp add: spaces_def dropWhile_append2)
    also have "\<dots> = body @ ws2" using bc(1) hd by (cases body) auto
    finally show ?thesis .
  qed
  have tw: "takeWhile Py_ISSPACE (rev (body @ ws2)) = rev ws2"
  proof -
    have "takeWhile Py_ISSPACE (rev body) = []"
      using bc(1) la by (cases "rev body") (auto simp: last_rev [symmetric] hd_rev)
    then show ?thesis using t(3) by (simp add: spaces_def takeWhile_append)
  qed
  have tr: "min (length (takeWhile Py_ISSPACE (rev (body @ ws2)))) (length (body @ ws2) - 1) = length ws2"
  proof -
    have a: "length (takeWhile Py_ISSPACE (rev (body @ ws2))) = length ws2" unfolding tw by simp
    have b: "length ws2 \<le> length (body @ ws2) - 1" using bc(1) by (cases body) simp_all
    show ?thesis unfolding a using b by (rule min_absorb1)
  qed
  have "length (body @ ws2) \<le> MAX_DIGITS" using len t(1) by simp
  from ascii_strtod_complete [OF this t(4) t(3)] obtain k where
    "ascii_strtod (body @ ws2) = Some (k, ws2)" by blast
  then have "float_from_string_inner t = Inr k"
    unfolding float_from_string_inner_def Let_def d tr using bc(1) by simp
  then show ?thesis by blast
qed

subsection \<open>Underscores\<close>

text \<open>
  The pass over the underscores succeeds exactly on the texts without a NUL in which every
  underscore stands between two digits, and returns the text without them.
\<close>

lemma grouping_from_Nil: "grouping_from prev []"
  by (simp add: grouping_from_def)

lemma grouping_from_Cons:
  "grouping_from prev (p # rest) \<longleftrightarrow>
     (if p = CHR ''_'' then is_digit prev \<and> rest \<noteq> [] \<and> is_digit (hd rest) \<and> grouping_from p rest
      else grouping_from p rest)"
proof (cases "p = CHR ''_''")
  case True
  show ?thesis
  proof
    assume g: "grouping_from prev (p # rest)"
    have "p # rest = [] @ CHR ''_'' # rest" using True by simp
    with g have a: "is_digit prev \<and> rest \<noteq> [] \<and> is_digit (hd rest)"
      unfolding grouping_from_def by (metis last.simps)
    have "grouping_from p rest"
      unfolding grouping_from_def
    proof (intro allI impI)
      fix pre post assume "rest = pre @ CHR ''_'' # post"
      then have "p # rest = (p # pre) @ CHR ''_'' # post" by simp
      with g have "is_digit (last (prev # p # pre)) \<and> post \<noteq> [] \<and> is_digit (hd post)"
        unfolding grouping_from_def by blast
      then show "is_digit (last (p # pre)) \<and> post \<noteq> [] \<and> is_digit (hd post)" by simp
    qed
    with a True show "if p = CHR ''_'' then is_digit prev \<and> rest \<noteq> [] \<and> is_digit (hd rest) \<and>
        grouping_from p rest else grouping_from p rest" by simp
  next
    assume "if p = CHR ''_'' then is_digit prev \<and> rest \<noteq> [] \<and> is_digit (hd rest) \<and>
        grouping_from p rest else grouping_from p rest"
    with True have a: "is_digit prev" "rest \<noteq> []" "is_digit (hd rest)" and g: "grouping_from p rest"
      by simp_all
    show "grouping_from prev (p # rest)"
      unfolding grouping_from_def
    proof (intro allI impI)
      fix pre post assume e: "p # rest = pre @ CHR ''_'' # post"
      show "is_digit (last (prev # pre)) \<and> post \<noteq> [] \<and> is_digit (hd post)"
      proof (cases pre)
        case Nil
        then show ?thesis using e a by simp
      next
        case (Cons q pre')
        then have "rest = pre' @ CHR ''_'' # post" "q = p" using e by simp_all
        with g have "is_digit (last (p # pre')) \<and> post \<noteq> [] \<and> is_digit (hd post)"
          unfolding grouping_from_def by blast
        then show ?thesis using Cons \<open>q = p\<close> by simp
      qed
    qed
  qed
next
  case False
  show ?thesis
  proof
    assume g: "grouping_from prev (p # rest)"
    have "grouping_from p rest"
      unfolding grouping_from_def
    proof (intro allI impI)
      fix pre post assume "rest = pre @ CHR ''_'' # post"
      then have "p # rest = (p # pre) @ CHR ''_'' # post" by simp
      with g have "is_digit (last (prev # p # pre)) \<and> post \<noteq> [] \<and> is_digit (hd post)"
        unfolding grouping_from_def by blast
      then show "is_digit (last (p # pre)) \<and> post \<noteq> [] \<and> is_digit (hd post)" by simp
    qed
    then show "if p = CHR ''_'' then is_digit prev \<and> rest \<noteq> [] \<and> is_digit (hd rest) \<and>
        grouping_from p rest else grouping_from p rest" using False by simp
  next
    assume "if p = CHR ''_'' then is_digit prev \<and> rest \<noteq> [] \<and> is_digit (hd rest) \<and>
        grouping_from p rest else grouping_from p rest"
    then have g: "grouping_from p rest" using False by simp
    show "grouping_from prev (p # rest)"
      unfolding grouping_from_def
    proof (intro allI impI)
      fix pre post assume e: "p # rest = pre @ CHR ''_'' # post"
      show "is_digit (last (prev # pre)) \<and> post \<noteq> [] \<and> is_digit (hd post)"
      proof (cases pre)
        case Nil
        then show ?thesis using e False by simp
      next
        case (Cons q pre')
        then have "rest = pre' @ CHR ''_'' # post" "q = p" using e by simp_all
        with g have "is_digit (last (p # pre')) \<and> post \<noteq> [] \<and> is_digit (hd post)"
          unfolding grouping_from_def by blast
        then show ?thesis using Cons \<open>q = p\<close> by simp
      qed
    qed
  qed
qed

lemma grouping_ok_from: "grouping_ok s = grouping_from (CHR 0x00) s"
proof -
  have "is_digit (last (CHR 0x00 # pre)) \<longleftrightarrow> pre \<noteq> [] \<and> is_digit (last pre)" for pre
    by (cases pre) (auto simp: is_digit_def)
  then show ?thesis by (simp add: grouping_ok_def grouping_from_def)
qed

lemma underscore_loop_nul: "CHR 0x00 \<in> set s \<Longrightarrow> underscore_loop prev s = None"
  by (induction s arbitrary: prev) auto

lemma underscore_loop_eq:
  assumes "CHR 0x00 \<notin> set s"
  shows "underscore_loop prev s =
     (if grouping_from prev s \<and> (prev = CHR ''_'' \<longrightarrow> s \<noteq> [] \<and> is_digit (hd s))
      then Some (no_underscores s) else None)"
  using assms
proof (induction s arbitrary: prev)
  case Nil
  then show ?case by (simp add: grouping_from_Nil no_underscores_def)
next
  case (Cons p rest)
  have u: "\<not> is_digit (CHR ''_'')" by (simp add: is_digit_def)
  from Cons.prems have n: "p \<noteq> CHR 0x00" "CHR 0x00 \<notin> set rest" by auto
  note ih = Cons.IH [OF n(2)]
  show ?case
  proof (cases "p = CHR ''_''")
    case True
    show ?thesis
      using True n(1) u by (auto simp: ih grouping_from_Cons no_underscores_def)
  next
    case False
    show ?thesis
      using False n(1) by (auto simp: ih grouping_from_Cons no_underscores_def)
  qed
qed

lemma space_props:
  assumes "Py_ISSPACE c"
  shows "c \<noteq> CHR 0x00" "c \<noteq> CHR ''?''" "(of_char c :: nat) < 127"
  using assms by (auto simp: Py_ISSPACE_def)

lemma trimmed_chars:
  assumes "trimmed_body t"
  shows "\<forall>c \<in> set t. Py_ISSPACE c \<or> body_char c"
proof -
  from assms obtain ws1 body ws2 where t: "t = ws1 @ body @ ws2" "spaces ws1" "spaces ws2"
    "float_body body" by (auto simp: trimmed_body_def)
  show ?thesis using t(1,2,3) float_body_chars(2) [OF t(4)] by (auto simp: spaces_def)
qed

lemma trimmed_plain:
  assumes "trimmed_body t"
  shows "CHR 0x00 \<notin> set t" "CHR ''_'' \<notin> set t" "CHR ''?'' \<notin> set t"
    "\<forall>c \<in> set t. (of_char c :: nat) < 127"
proof -
  note tc = trimmed_chars [OF assms]
  show "CHR 0x00 \<notin> set t" using tc space_props(1) body_char_props(3) by blast
  show "CHR ''_'' \<notin> set t" using tc space_not(7) body_char_props(2) by blast
  show "CHR ''?'' \<notin> set t" using tc space_props(2) body_char_props(4) by blast
  show "\<forall>c \<in> set t. (of_char c :: nat) < 127" using tc space_props(3) body_char_props(5) by blast
qed

lemma length_no_underscores: "length (no_underscores s) \<le> length s"
  by (simp add: no_underscores_def)

lemma no_underscores_id: "CHR ''_'' \<notin> set s \<Longrightarrow> no_underscores s = s"
  unfolding no_underscores_def by (induction s) auto

lemma grouping_ok_plain: "CHR ''_'' \<notin> set s \<Longrightarrow> grouping_ok s"
  unfolding grouping_ok_def by auto

lemma underscore_loop_start:
  assumes "CHR 0x00 \<notin> set T"
  shows "underscore_loop (CHR 0x00) T = (if grouping_ok T then Some (no_underscores T) else None)"
proof -
  have "CHR 0x00 \<noteq> CHR ''_''" by simp
  then show ?thesis unfolding underscore_loop_eq [OF assms] grouping_ok_from by simp
qed

lemma underscores_sound:
  assumes len: "length T \<le> MAX_DIGITS"
    and acc: "string_to_number_with_underscores T float_from_string_inner = Inr k"
  shows "grouping_ok T \<and> trimmed_body (no_underscores T)"
proof (cases "CHR ''_'' \<notin> set (takeWhile (\<lambda>c. c \<noteq> CHR 0x00) T)")
  case True
  then have "float_from_string_inner T = Inr k"
    using acc unfolding string_to_number_with_underscores_def by simp
  from inner_sound [OF len this] have tb: "trimmed_body T" .
  from trimmed_plain(2) [OF tb] have nu: "CHR ''_'' \<notin> set T" .
  show ?thesis using tb no_underscores_id [OF nu] grouping_ok_plain [OF nu] by simp
next
  case False
  then have acc': "(case underscore_loop (CHR 0x00) T of None \<Rightarrow> Inl ValueError
      | Some dup \<Rightarrow> float_from_string_inner dup) = Inr k"
    using acc unfolding string_to_number_with_underscores_def by simp
  then obtain dup where d: "underscore_loop (CHR 0x00) T = Some dup"
    and i: "float_from_string_inner dup = Inr k"
    by (cases "underscore_loop (CHR 0x00) T") simp_all
  have n: "CHR 0x00 \<notin> set T"
  proof
    assume "CHR 0x00 \<in> set T"
    from underscore_loop_nul [OF this, of "CHR 0x00"] d show False by simp
  qed
  have g: "grouping_ok T"
  proof (rule ccontr)
    assume "\<not> grouping_ok T"
    then have "underscore_loop (CHR 0x00) T = None" by (simp add: underscore_loop_start [OF n])
    with d show False by simp
  qed
  then have dup: "dup = no_underscores T" using d by (simp add: underscore_loop_start [OF n])
  have "length dup \<le> MAX_DIGITS"
    using len length_no_underscores [of T] unfolding dup by (rule order_trans [rotated])
  from inner_sound [OF this i] show ?thesis using g dup by simp
qed

lemma underscores_complete:
  assumes len: "length T \<le> MAX_DIGITS"
    and g: "grouping_ok T" and tb: "trimmed_body (no_underscores T)"
  shows "\<exists>k. string_to_number_with_underscores T float_from_string_inner = Inr k"
proof -
  have "CHR 0x00 \<notin> set (no_underscores T)" using trimmed_plain(1) [OF tb] .
  then have n: "CHR 0x00 \<notin> set T" unfolding no_underscores_def by simp
  then have tw: "takeWhile (\<lambda>c. c \<noteq> CHR 0x00) T = T"
    unfolding takeWhile_eq_all_conv by blast
  have "length (no_underscores T) \<le> MAX_DIGITS"
    using length_no_underscores [of T] len by (rule order_trans)
  from inner_complete [OF this tb] obtain k where
    k: "float_from_string_inner (no_underscores T) = Inr k" ..
  show ?thesis
  proof (cases "CHR ''_'' \<in> set T")
    case False
    then have "string_to_number_with_underscores T float_from_string_inner = float_from_string_inner T"
      unfolding string_to_number_with_underscores_def tw by simp
    then show ?thesis using k no_underscores_id [OF False] by simp
  next
    case True
    then have "string_to_number_with_underscores T float_from_string_inner =
        float_from_string_inner (no_underscores T)"
      unfolding string_to_number_with_underscores_def tw underscore_loop_start [OF n]
      using g by simp
    then show ?thesis using k by simp
  qed
qed

subsection \<open>Conversion to ASCII\<close>

text \<open>
  A text of convertible characters is converted to its ASCII reading, character by
  character. Any other text is converted to one that holds a question mark or the
  character 127, which no later step accepts.
\<close>

lemma del_props: "\<not> Py_UNICODE_ISSPACE 127" "Py_UNICODE_TODECIMAL 127 = None"
  by (simp_all add: Py_UNICODE_ISSPACE_def Py_UNICODE_TODECIMAL_def decimal_zeros_def)

lemma transform_loop_good: "\<forall>c \<in> set s. convertible c \<Longrightarrow> transform_loop s = map to_ascii s"
proof (induction s)
  case Nil then show ?case by simp
next
  case (Cons c s)
  then have g: "convertible c" and ih: "transform_loop s = map to_ascii s" by simp_all
  show ?case using g ih by (auto simp: to_ascii_def convertible_def split: option.splits)
qed

lemma to_ascii_below:
  assumes "convertible c" "c < 128"
  shows "to_ascii c = char_of c"
proof (cases "c < 127")
  case True
  then show ?thesis by (simp add: to_ascii_def)
next
  case False
  then have "c = 127" using assms(2) by simp
  then show ?thesis using assms(1) del_props by (simp add: convertible_def)
qed

lemma transform_good:
  assumes "\<forall>c \<in> set s. convertible c"
  shows "TransformDecimalAndSpaceToASCII s = map to_ascii s"
proof (cases "\<forall>ch \<in> set s. ch < 128")
  case True
  have "map to_ascii s = map char_of s"
    using assms True to_ascii_below by (intro map_cong) auto
  moreover have "TransformDecimalAndSpaceToASCII s = map char_of s"
    unfolding TransformDecimalAndSpaceToASCII_def using True by (rule if_P)
  ultimately show ?thesis by simp
next
  case False
  have "TransformDecimalAndSpaceToASCII s = transform_loop s"
    unfolding TransformDecimalAndSpaceToASCII_def using False by (rule if_not_P)
  then show ?thesis using transform_loop_good [OF assms] by simp
qed

lemma transform_loop_bad: "\<not> (\<forall>c \<in> set s. convertible c) \<Longrightarrow> CHR ''?'' \<in> set (transform_loop s)"
proof (induction s)
  case Nil then show ?case by simp
next
  case (Cons c s)
  show ?case
  proof (cases "convertible c")
    case True
    then have "CHR ''?'' \<in> set (transform_loop s)" using Cons by simp
    then show ?thesis by (simp split: option.splits)
  next
    case False
    then show ?thesis by (simp add: convertible_def)
  qed
qed

lemma transform_bad:
  assumes "\<not> (\<forall>c \<in> set s. convertible c)"
  shows "CHR ''?'' \<in> set (TransformDecimalAndSpaceToASCII s) \<or>
         (\<exists>c \<in> set (TransformDecimalAndSpaceToASCII s). \<not> (of_char c :: nat) < 127)"
proof (cases "\<forall>ch \<in> set s. ch < 128")
  case True
  have T: "TransformDecimalAndSpaceToASCII s = map char_of s"
    unfolding TransformDecimalAndSpaceToASCII_def using True by (rule if_P)
  from assms obtain c where c: "c \<in> set s" "\<not> convertible c" by blast
  then have "c = 127" using True by (fastforce simp: convertible_def)
  then have "char_of (127 :: nat) \<in> set (map char_of s)" using c(1) by force
  moreover have "\<not> (of_char (char_of (127 :: nat)) :: nat) < 127" by simp
  ultimately show ?thesis unfolding T by blast
next
  case False
  have "TransformDecimalAndSpaceToASCII s = transform_loop s"
    unfolding TransformDecimalAndSpaceToASCII_def using False by (rule if_not_P)
  then show ?thesis using transform_loop_bad [OF assms] by simp
qed

lemma length_transform_loop: "length (transform_loop s) \<le> length s"
  by (induction s) (auto split: option.splits)

lemma length_transform: "length (TransformDecimalAndSpaceToASCII s) \<le> length s"
  by (simp add: TransformDecimalAndSpaceToASCII_def length_transform_loop)

subsection \<open>The equivalence\<close>

lemma is_number_accept:
  "is_number (Some s) \<longleftrightarrow>
     (\<exists>k. string_to_number_with_underscores (TransformDecimalAndSpaceToASCII s)
             float_from_string_inner = Inr k)"
  unfolding is_number_def py_float_def PyFloat_FromString_def
  by (cases "string_to_number_with_underscores (TransformDecimalAndSpaceToASCII s)
             float_from_string_inner") simp_all

lemma is_number_iff_float_text:
  assumes len: "length s \<le> MAX_DIGITS"
  shows "is_number (Some s) \<longleftrightarrow> float_text s"
proof -
  define T where "T = TransformDecimalAndSpaceToASCII s"
  have lt: "length T \<le> MAX_DIGITS"
    using length_transform [of s] len unfolding T_def by (rule order_trans)
  show ?thesis
  proof
    assume "is_number (Some s)"
    then obtain k where "string_to_number_with_underscores T float_from_string_inner = Inr k"
      unfolding is_number_accept T_def by blast
    from underscores_sound [OF lt this]
    have g: "grouping_ok T" and tb: "trimmed_body (no_underscores T)" by simp_all
    have q: "CHR ''?'' \<notin> set T"
      using trimmed_plain(3) [OF tb] by (simp add: no_underscores_def)
    have a: "\<forall>c \<in> set T. (of_char c :: nat) < 127"
    proof
      fix c assume "c \<in> set T"
      then have "c = CHR ''_'' \<or> c \<in> set (no_underscores T)" by (simp add: no_underscores_def)
      then show "(of_char c :: nat) < 127" using trimmed_plain(4) [OF tb] by auto
    qed
    have gd: "\<forall>c \<in> set s. convertible c"
    proof (rule ccontr)
      assume "\<not> (\<forall>c \<in> set s. convertible c)"
      from transform_bad [OF this] q a show False unfolding T_def by blast
    qed
    have T: "T = map to_ascii s" unfolding T_def by (rule transform_good [OF gd])
    show "float_text s" unfolding float_text_def using gd g tb unfolding T by blast
  next
    assume ft: "float_text s"
    then have gd: "\<forall>c \<in> set s. convertible c" by (simp add: float_text_def)
    have T: "T = map to_ascii s" unfolding T_def by (rule transform_good [OF gd])
    have g: "grouping_ok T" using ft unfolding T float_text_def by blast
    have tb: "trimmed_body (no_underscores T)" using ft unfolding T float_text_def by blast
    from underscores_complete [OF lt g tb] show "is_number (Some s)"
      unfolding is_number_accept T_def .
  qed
qed

text \<open>An optionally signed integer or decimal is a float literal.\<close>

lemma plain_float_body:
  assumes d: "\<exists>c \<in> set (skip_sign a). is_digit c"
      "\<forall>c \<in> set (skip_sign a). is_digit c \<or> c = CHR ''.''"
      "length (filter (\<lambda>c. c = CHR ''.'') (skip_sign a)) \<le> 1"
  shows "float_body a"
proof -
  define body where "body = skip_sign a"
  note d = d [folded body_def]
  obtain sg where sg: "is_sign sg" "a = sg @ body"
    using skip_sign_split [of a] unfolding body_def by blast
  define ds where "ds = takeWhile is_digit body"
  define fr where "fr = dropWhile is_digit body"
  have b: "body = ds @ fr" by (simp add: ds_def fr_def)
  have da: "digits ds" unfolding ds_def by (rule digits_takeWhile)
  have fa: "filter (\<lambda>c. c = CHR ''.'') ds = []"
    using da digit_not(1) by (auto simp: digits_def filter_empty_conv)
  have frp: "fraction_part fr \<and> (ds \<noteq> [] \<or> 1 < length fr)"
  proof (cases fr)
    case Nil
    then show ?thesis using d(1) b by (auto simp: fraction_part_def)
  next
    case (Cons c r)
    have "\<not> is_digit c" using Cons hd_dropWhile [of is_digit body] unfolding fr_def by fastforce
    moreover have "c \<in> set body" using b Cons by simp
    ultimately have c: "c = CHR ''.''" using d(2) by blast
    have "length (filter (\<lambda>c. c = CHR ''.'') fr) \<le> 1" using d(3) unfolding b by (simp add: fa)
    then have "filter (\<lambda>c. c = CHR ''.'') r = []" using Cons c by simp
    then have "\<forall>x \<in> set r. x \<noteq> CHR ''.''" by (simp add: filter_empty_conv)
    moreover have "\<forall>x \<in> set r. is_digit x \<or> x = CHR ''.''" using d(2) b Cons by simp
    ultimately have dr: "digits r" unfolding digits_def by blast
    have "ds \<noteq> [] \<or> r \<noteq> []"
    proof (rule ccontr)
      assume "\<not> (ds \<noteq> [] \<or> r \<noteq> [])"
      then have "body = [CHR ''.'']" using b Cons c by simp
      with d(1) show False by (simp add: is_digit_def)
    qed
    then show ?thesis using Cons c dr by (auto simp: fraction_part_def)
  qed
  have "decimal_text body"
    unfolding decimal_text_def
  proof (intro exI conjI)
    show "body = ds @ fr @ []" using b by simp
    show "digits ds" by (rule da)
    show "fraction_part fr" using frp by simp
    show "ds \<noteq> [] \<or> 1 < length fr" using frp by simp
    show "exponent_part []" by (simp add: exponent_part_def)
  qed
  then show ?thesis unfolding float_body_def using sg by blast
qed

lemma plain_decimal_float_text:
  assumes "plain_decimal s"
  shows "float_text s"
proof -
  define a where "a = map char_of s"
  from assms have asc: "\<forall>c \<in> set s. c < 128"
    and d: "\<exists>c \<in> set (skip_sign a). is_digit c"
      "\<forall>c \<in> set (skip_sign a). is_digit c \<or> c = CHR ''.''"
      "length (filter (\<lambda>c. c = CHR ''.'') (skip_sign a)) \<le> 1"
    unfolding plain_decimal_def Let_def a_def by blast+
  have fb: "float_body a" by (rule plain_float_body [OF d])
  have bc: "\<forall>c \<in> set a. body_char c" by (rule float_body_chars(2) [OF fb])
  have low: "c < 127" if "c \<in> set s" for c
  proof -
    have "char_of c \<in> set a" using that by (simp add: a_def)
    then have "(of_char (char_of c :: char) :: nat) < 127" using bc body_char_props(5) by blast
    moreover have "c < 128" using asc that by blast
    ultimately show ?thesis by simp
  qed
  then have gd: "\<forall>c \<in> set s. convertible c" by (simp add: convertible_def)
  have r: "map to_ascii s = a" unfolding a_def using low by (intro map_cong) (simp_all add: to_ascii_def)
  have "CHR ''_'' \<notin> set a" using bc body_char_props(2) by blast
  then have nu: "no_underscores a = a" and g: "grouping_ok a"
    by (simp_all add: no_underscores_id grouping_ok_plain)
  have "a = [] @ a @ []" by simp
  moreover have "spaces []" by (simp add: spaces_def)
  ultimately have "trimmed_body a" unfolding trimmed_body_def using fb by blast
  then show ?thesis unfolding float_text_def r nu using gd g by blast
qed

lemma nan_not_plain: "\<not> plain_decimal (ustr ''nan'')" "\<not> plain_decimal (ustr ''inf'')"
  by (simp_all add: plain_decimal_def chars_ustr skip_sign_def is_digit_def)

section \<open>Properties\<close>

text \<open>
  C8. A GET request for each of the routes \<^verbatim>\<open>/\<close>, \<^verbatim>\<open>/health\<close> and \<^verbatim>\<open>/healthz\<close> is answered
  with status 200 and body OK, and the three rules lead to the same view function.
\<close>

theorem health_routes:
  "get_request ''/'' = Some (''OK'', 200) \<and>
   get_request ''/health'' = Some (''OK'', 200) \<and>
   get_request ''/healthz'' = Some (''OK'', 200) \<and>
   match_rule ''/'' = Some ''health'' \<and>
   match_rule ''/health'' = Some ''health'' \<and>
   match_rule ''/healthz'' = Some ''health''"
  by (simp add: get_request_def match_rule_def url_map_def view_functions_def health_def)

text \<open>
  C9. The validator is total and no exception escapes it: for every value, either
  \<^verbatim>\<open>float\<close> raises and the result is false, or \<^verbatim>\<open>float\<close> returns and the result is true.
\<close>

theorem is_number_never_raises:
  "(\<exists>err. py_float v = Inl err \<and> is_number v = False) \<or>
   (\<exists>kind. py_float v = Inr kind \<and> is_number v = True)"
  by (cases "py_float v") (simp_all add: is_number_def)




text \<open>
  C3. When the validator rejects the text of a new message, each of the five handlers
  returns its own state and changes nothing but the trace, to which it adds its own error
  prompt; on an edited message each raises before it does anything. So a plain text that
  is rejected leaves a conversation in any of the five states in its state, with the
  session and the sheet as they were, and one reply is added when the message is new.
\<close>

theorem invalid_input_frame:
  assumes "effective_message u = Some m" and "\<not> is_number (message_text m)"
  shows "cash e u w =
           (if message u = None then (Inl AttributeError, w)
            else (Inr CASH, w\<lparr>trace := trace w @ [Reply (invalid_prompt ''Cash'')]\<rparr>)) \<and>
         card_amount e u w =
           (if message u = None then (Inl AttributeError, w)
            else (Inr CARD, w\<lparr>trace := trace w @ [Reply (invalid_prompt ''Card'')]\<rparr>)) \<and>
         uber e u w =
           (if message u = None then (Inl AttributeError, w)
            else (Inr UBER, w\<lparr>trace := trace w @ [Reply (invalid_prompt ''Uber'')]\<rparr>)) \<and>
         deliveroo e u w =
           (if message u = None then (Inl AttributeError, w)
            else (Inr DELIVEROO, w\<lparr>trace := trace w @ [Reply (invalid_prompt ''Deliveroo'')]\<rparr>)) \<and>
         app_amount e u w =
           (if message u = None then (Inl AttributeError, w)
            else (Inr APP, w\<lparr>trace := trace w @ [Reply (invalid_prompt ''App'')]\<rparr>)) \<and>
         (st \<noteq> END \<and> check_filter TEXT (Some m) \<and> \<not> check_filter COMMAND (Some m) \<longrightarrow>
            (\<exists>field. handle_update conv_handler e u (Some st, w) =
               (Some st, if message u = None then w
                         else w\<lparr>trace := trace w @ [Reply (invalid_prompt field)]\<rparr>)))"
proof -
  from effective_cases [OF assms(1)]
  have h: "cash e u w =
           (if message u = None then (Inl AttributeError, w)
            else (Inr CASH, w\<lparr>trace := trace w @ [Reply (invalid_prompt ''Cash'')]\<rparr>))"
    "card_amount e u w =
           (if message u = None then (Inl AttributeError, w)
            else (Inr CARD, w\<lparr>trace := trace w @ [Reply (invalid_prompt ''Card'')]\<rparr>))"
    "uber e u w =
           (if message u = None then (Inl AttributeError, w)
            else (Inr UBER, w\<lparr>trace := trace w @ [Reply (invalid_prompt ''Uber'')]\<rparr>))"
    "deliveroo e u w =
           (if message u = None then (Inl AttributeError, w)
            else (Inr DELIVEROO, w\<lparr>trace := trace w @ [Reply (invalid_prompt ''Deliveroo'')]\<rparr>))"
    "app_amount e u w =
           (if message u = None then (Inl AttributeError, w)
            else (Inr APP, w\<lparr>trace := trace w @ [Reply (invalid_prompt ''App'')]\<rparr>))"
    using assms(2)
    by (auto simp: cash_def card_amount_def uber_def deliveroo_def app_amount_def reply_text_def)
  have "\<exists>field. handle_update conv_handler e u (Some st, w) =
               (Some st, if message u = None then w
                         else w\<lparr>trace := trace w @ [Reply (invalid_prompt field)]\<rparr>)"
    if "st \<noteq> END" "check_filter TEXT (Some m)" "\<not> check_filter COMMAND (Some m)"
    using step_invalid [OF assms that] .
  with h show ?thesis by blast
qed

theorem invalid_input_frame_witness:
  "effective_message (text_update (ustr ''abc'')) = Some (text_message (ustr ''abc'')) \<and>
   \<not> is_number (message_text (text_message (ustr ''abc''))) \<and>
   cash env_ok (text_update (ustr ''abc'')) cash_world =
     (Inr CASH, cash_world\<lparr>trace := [Reply (invalid_prompt ''Cash'')]\<rparr>) \<and>
   app_amount env_ok (text_update (ustr ''abc'')) app_world =
     (Inr APP, app_world\<lparr>trace := [Reply (invalid_prompt ''App'')]\<rparr>) \<and>
   handle_update conv_handler env_ok (text_update (ustr ''abc'')) (Some APP, app_world) =
     (Some APP, app_world\<lparr>trace := [Reply (invalid_prompt ''App'')]\<rparr>) \<and>
   effective_message (edited_text_update (ustr ''abc'')) = Some (text_message (ustr ''abc'')) \<and>
   handle_update conv_handler env_ok (edited_text_update (ustr ''abc'')) (Some APP, app_world) =
     (Some APP, app_world)"
proof -
  let ?u = "text_update (ustr ''abc'')" and ?d = "edited_text_update (ustr ''abc'')"
  let ?m = "text_message (ustr ''abc'')"
  have e: "effective_message ?u = Some ?m" "message ?u \<noteq> None"
    by (simp_all add: effective_message_def text_update_def)
  have ed: "effective_message ?d = Some ?m" "message ?d = None"
    by (simp_all add: effective_message_def edited_text_update_def)
  have n: "\<not> is_number (message_text ?m)"
    by (simp add: text_message_def float_defs transform_ustr)
  have f: "check_filter TEXT (Some ?m)" "\<not> check_filter COMMAND (Some ?m)"
    by (simp_all add: text_message_def ustr_def)
  have s: "select_handler conv_handler (Some APP) ?u =
      Some (MessageHandler (And_filter TEXT (Not_filter COMMAND)) app_amount)"
    "select_handler conv_handler (Some APP) ?d =
      Some (MessageHandler (And_filter TEXT (Not_filter COMMAND)) app_amount)"
    using f e(1) ed(1) by (simp_all add: select_handler_def conv_handler_def)
  from invalid_input_frame [OF e(1) n, of env_ok cash_world APP] e(2)
  have 1: "cash env_ok ?u cash_world =
     (Inr CASH, cash_world\<lparr>trace := [Reply (invalid_prompt ''Cash'')]\<rparr>)"
    by (simp add: cash_world_def)
  from invalid_input_frame [OF e(1) n, of env_ok app_world APP] e(2)
  have 2: "app_amount env_ok ?u app_world =
     (Inr APP, app_world\<lparr>trace := [Reply (invalid_prompt ''App'')]\<rparr>)"
    by (simp add: app_world_def)
  have 3: "handle_update conv_handler env_ok ?u (Some APP, app_world) =
     (Some APP, app_world\<lparr>trace := [Reply (invalid_prompt ''App'')]\<rparr>)"
    by (simp add: handle_update_def s 2)
  from invalid_input_frame [OF ed(1) n, of env_ok app_world APP] ed(2)
  have 4: "app_amount env_ok ?d app_world = (Inl AttributeError, app_world)"
    by simp
  have 5: "handle_update conv_handler env_ok ?d (Some APP, app_world) = (Some APP, app_world)"
    by (simp add: handle_update_def s 4)
  show ?thesis using e(1) ed(1) n 1 2 3 5 by simp
qed

text \<open>
  C5. When the four earlier fields are set and the text of a new message is valid,
  \<^verbatim>\<open>app_amount\<close> hands one row to the sheet. If the append raises, the handler prints the
  error, sends the fixed failure reply, clears the session and ends the conversation;
  whether the append raises or not, the handler returns \<^verbatim>\<open>END\<close>, the session is empty
  afterwards, and the sheet was called exactly once.
\<close>

theorem append_failure_clears:
  assumes "message u = Some m" and "is_number (message_text m)"
    and "user_data w ''Cash'' = Some c" and "user_data w ''Card'' = Some cd"
    and "user_data w ''Uber'' = Some ub" and "user_data w ''Deliveroo'' = Some dl"
  shows "(append_error e = Some msg \<longrightarrow>
            app_amount e u w =
              (Inr END,
               w\<lparr>user_data := Map.empty,
                 trace := trace w @
                   [Print_debug [Some (now e), Some (full_name m), c, cd, ub, dl, message_text m],
                    Append_row [now e, full_name m, py_str c, py_str cd, py_str ub,
                                py_str dl, py_str (message_text m)],
                    Print_error (APIError msg),
                    Reply (cross_mark # ustr '' Error saving to Google Sheet. Check logs.'')]\<rparr>)) \<and>
         fst (app_amount e u w) = Inr END \<and>
         user_data (snd (app_amount e u w)) = Map.empty \<and>
         sink_calls (trace (snd (app_amount e u w))) =
           sink_calls (trace w) @
             [[now e, full_name m, py_str c, py_str cd, py_str ub, py_str dl,
               py_str (message_text m)]]"
  unfolding app_amount_valid [OF assms]
  by (cases "append_error e") (simp_all add: sink_calls_append)

theorem append_failure_clears_witness:
  "message (text_update (ustr ''15'')) = Some (text_message (ustr ''15'')) \<and>
   is_number (message_text (text_message (ustr ''15''))) \<and>
   app_amount env_down (text_update (ustr ''15'')) app_world =
     (Inr END,
      empty_world\<lparr>trace :=
        [Print_debug [Some (ustr ''2024-05-01 18:30:00''), Some (ustr ''Sam Lee''), Some (ustr ''50''),
                      Some (ustr ''20''), Some (ustr ''10''), Some (ustr ''5''), Some (ustr ''15'')],
         Append_row [ustr ''2024-05-01 18:30:00'', ustr ''Sam Lee'', ustr ''50'', ustr ''20'',
                     ustr ''10'', ustr ''5'', ustr ''15''],
         Print_error (APIError ''quota exceeded''),
         Reply (cross_mark # ustr '' Error saving to Google Sheet. Check logs.'')]\<rparr>)"
proof -
  have m: "message (text_update (ustr ''15'')) = Some (text_message (ustr ''15''))"
    by (simp add: text_update_def)
  have v: "is_number (message_text (text_message (ustr ''15'')))"
    using valid_15 by (simp add: text_message_def)
  from append_failure_clears [OF m v, of app_world "Some (ustr ''50'')" "Some (ustr ''20'')"
      "Some (ustr ''10'')" "Some (ustr ''5'')" env_down "''quota exceeded''"]
  have "app_amount env_down (text_update (ustr ''15'')) app_world =
     (Inr END,
      empty_world\<lparr>trace :=
        [Print_debug [Some (ustr ''2024-05-01 18:30:00''), Some (ustr ''Sam Lee''), Some (ustr ''50''),
                      Some (ustr ''20''), Some (ustr ''10''), Some (ustr ''5''), Some (ustr ''15'')],
         Append_row [ustr ''2024-05-01 18:30:00'', ustr ''Sam Lee'', ustr ''50'', ustr ''20'',
                     ustr ''10'', ustr ''5'', ustr ''15''],
         Print_error (APIError ''quota exceeded''),
         Reply (cross_mark # ustr '' Error saving to Google Sheet. Check logs.'')]\<rparr>)"
    by (simp add: app_world_def empty_world_def env_down_def text_message_def py_str_def)
  with m v show ?thesis by simp
qed

text \<open>
  C6 fails on an edited message. With Cash stored as 50 and the conversation in the Card
  state, an update whose edited message is the cancel command is accepted by the cancel
  fallback; \<^verbatim>\<open>cancel\<close> clears the session and then raises, so no reply is sent and the
  conversation stays in the Card state, with an empty session.
\<close>

theorem edited_cancel_keeps_state:
  "check_update (CommandHandler ''cancel'' cancel) (edited_command_update ''cancel'') \<and>
   select_handler conv_handler (Some CARD) (edited_command_update ''cancel'') =
     Some (CommandHandler ''cancel'' cancel) \<and>
   cancel env_ok (edited_command_update ''cancel'') cash_world = (Inl AttributeError, empty_world) \<and>
   handle_update conv_handler env_ok (edited_command_update ''cancel'') (Some CARD, cash_world) =
     (Some CARD, empty_world)"
proof -
  let ?u = "edited_command_update ''cancel''"
  have e: "effective_message ?u = Some (command_message ''cancel'')" "message ?u = None"
    by (simp_all add: effective_message_def edited_command_update_def)
  have a: "check_update (CommandHandler ''cancel'' cancel) ?u"
    using e(1) cmd_cancel by simp
  have "check_filter COMMAND (effective_message ?u)"
    unfolding e(1) using cmd_cancel by (rule command_is_COMMAND)
  then have b: "select_handler conv_handler (Some CARD) ?u = Some (CommandHandler ''cancel'' cancel)"
    using a by (simp add: select_handler_def conv_handler_def)
  have c: "cancel env_ok ?u cash_world = (Inl AttributeError, empty_world)"
    using e(2) by (simp add: cancel_def clear_def cash_world_def empty_world_def)
  have d: "handle_update conv_handler env_ok ?u (Some CARD, cash_world) = (Some CARD, empty_world)"
    by (simp add: handle_update_def b c)
  show ?thesis using a b c d by simp
qed



text \<open>
  C7 fails on an edited message. A conversation that begins idle with an empty session,
  starts, stores 50 as Cash and then receives the cancel command in an edited message is
  in the Card state with an empty session: the field of the state before Card is not set.
  The four amounts that follow are stored, and at the fifth \<^verbatim>\<open>app_amount\<close> raises a key
  error for Cash after it stored App: the conversation stays in the App state with four
  fields set, Cash not among them, and the sheet is never called.
\<close>

theorem edited_cancel_breaks_invariant:
  "map fst (steps conv_handler cancelled_run (None, empty_world)) =
     [Some CASH, Some CARD, Some CARD, Some UBER, Some DELIVEROO, Some APP, Some APP] \<and>
   dom (user_data (snd (steps conv_handler cancelled_run (None, empty_world) ! 1))) = {''Cash''} \<and>
   dom (user_data (snd (steps conv_handler cancelled_run (None, empty_world) ! 2))) = {} \<and>
   set (fields_before (Some CARD)) = {''Cash''} \<and>
   fst (app_amount env_ok (text_update (ustr ''15''))
          (snd (steps conv_handler cancelled_run (None, empty_world) ! 5))) = Inl (KeyError ''Cash'') \<and>
   dom (user_data (snd (last (steps conv_handler cancelled_run (None, empty_world))))) =
     {''Card'', ''Uber'', ''Deliveroo'', ''App''} \<and>
   sink_calls (trace (snd (last (steps conv_handler cancelled_run (None, empty_world))))) = []"
proof -
  have v: "is_number (Some (ustr ''50''))" "is_number (Some (ustr ''20''))"
    "is_number (Some (ustr ''10''))" "is_number (Some (ustr ''5''))" "is_number (Some (ustr ''15''))"
    by (simp_all add: float_defs transform_ustr)
  have m: "message (text_update x) = Some (text_message x)" for x
    by (simp add: text_update_def)
  have n: "is_number (message_text (text_message x))" if "is_number (Some x)" for x
    using that by (simp add: text_message_def)
  have f: "check_filter TEXT (Some (text_message x))" if "is_number (Some x)" for x
    using that is_number_empty by (auto simp: text_message_def)
  have p: "\<not> check_filter COMMAND (Some (text_message x))" for x
    by (simp add: text_message_def)
  define w1 where "w1 = empty_world\<lparr>trace := [Reply (ustr ''Enter Cash amount:'')]\<rparr>"
  define w2 where "w2 = w1\<lparr>user_data := [''Cash'' \<mapsto> Some (ustr ''50'')],
                         trace := trace w1 @ [Reply (ustr ''Enter Card amount:'')]\<rparr>"
  define w3 where "w3 = w2\<lparr>user_data := Map.empty\<rparr>"
  define w4 where "w4 = w3\<lparr>user_data := [''Card'' \<mapsto> Some (ustr ''20'')],
                         trace := trace w3 @ [Reply (ustr ''Enter Uber amount:'')]\<rparr>"
  define w5 where "w5 = w4\<lparr>user_data := (user_data w4)(''Uber'' \<mapsto> Some (ustr ''10'')),
                         trace := trace w4 @ [Reply (ustr ''Enter Deliveroo amount:'')]\<rparr>"
  define w6 where "w6 = w5\<lparr>user_data := (user_data w5)(''Deliveroo'' \<mapsto> Some (ustr ''5'')),
                         trace := trace w5 @ [Reply (ustr ''Enter App amount:'')]\<rparr>"
  define w7 where "w7 = w6\<lparr>user_data := (user_data w6)(''App'' \<mapsto> Some (ustr ''15''))\<rparr>"
  have s1: "handle_update conv_handler env_ok (command_update ''start'') (None, empty_world) =
      (Some CASH, w1)"
    using cmd_start
    by (simp add: handle_update_def select_idle effective_message_def command_update_def start_def
        reply_text_def empty_world_def w1_def)
  have s2: "handle_update conv_handler env_ok (text_update (ustr ''50'')) (Some CASH, w1) = (Some CARD, w2)"
    using step_valid(1) [OF m n [OF v(1)] f [OF v(1)] p, of env_ok w1]
    by (simp add: w2_def w1_def empty_world_def text_message_def)
  have e: "effective_message (edited_command_update ''cancel'') = Some (command_message ''cancel'')"
    "message (edited_command_update ''cancel'') = None"
    by (simp_all add: effective_message_def edited_command_update_def)
  have s3: "handle_update conv_handler env_ok (edited_command_update ''cancel'') (Some CARD, w2) =
      (Some CARD, w3)"
    using cancel_step [OF _ e(1) cmd_cancel, of CARD env_ok w2] e(2) by (simp add: w3_def)
  have s4: "handle_update conv_handler env_ok (text_update (ustr ''20'')) (Some CARD, w3) = (Some UBER, w4)"
    using step_valid(2) [OF m n [OF v(2)] f [OF v(2)] p, of env_ok w3]
    by (simp add: w4_def w3_def text_message_def)
  have s5: "handle_update conv_handler env_ok (text_update (ustr ''10'')) (Some UBER, w4) =
      (Some DELIVEROO, w5)"
    using step_valid(3) [OF m n [OF v(3)] f [OF v(3)] p, of env_ok w4]
    by (simp add: w5_def text_message_def)
  have s6: "handle_update conv_handler env_ok (text_update (ustr ''5'')) (Some DELIVEROO, w5) =
      (Some APP, w6)"
    using step_valid(4) [OF m n [OF v(4)] f [OF v(4)] p, of env_ok w5]
    by (simp add: w6_def text_message_def)
  have g: "getitems (user_data w7) columns = Inl (KeyError ''Cash'')"
    by (simp add: columns_def getitem_def w7_def w6_def w5_def w4_def)
  have a: "app_amount env_ok (text_update (ustr ''15'')) w6 = (Inl (KeyError ''Cash''), w7)"
    using n [OF v(5)] g
    by (simp add: app_amount_def m setitem_def w7_def text_message_def)
  have s7: "handle_update conv_handler env_ok (text_update (ustr ''15'')) (Some APP, w6) = (Some APP, w7)"
    unfolding step_app [OF m f [OF v(5)] p] by (simp add: a)
  have run: "steps conv_handler cancelled_run (None, empty_world) =
      [(Some CASH, w1), (Some CARD, w2), (Some CARD, w3), (Some UBER, w4), (Some DELIVEROO, w5),
       (Some APP, w6), (Some APP, w7)]"
    by (simp add: cancelled_run_def s1 s2 s3 s4 s5 s6 s7)
  have d2: "dom (user_data w2) = {''Cash''}" by (simp add: w2_def)
  have d3: "dom (user_data w3) = {}" by (simp add: w3_def)
  have d7: "dom (user_data w7) = {''Card'', ''Uber'', ''Deliveroo'', ''App''}"
    by (auto simp: w7_def w6_def w5_def w4_def)
  have t7: "sink_calls (trace w7) = []"
    by (simp add: w7_def w6_def w5_def w4_def w3_def w2_def w1_def empty_world_def)
  show ?thesis unfolding run using d2 d3 d7 t7 a by simp
qed

text \<open>
  C10. In each of the five states the only handler of the state is a message handler with
  the filter text-and-not-command, so the amount handler is picked exactly for the messages
  with a text that do not start with a command; any other message goes to the cancel
  fallback when it is the cancel command and to no handler otherwise. A command message
  therefore is never given to an amount handler: it either is the cancel command, which
  ends the conversation when the message is new and only clears the session when it is
  edited, or it leaves state and session as they are.
\<close>

theorem commands_not_amounts:
  assumes "st \<noteq> END"
  shows "(\<exists>cb. states conv_handler st = Some [MessageHandler (And_filter TEXT (Not_filter COMMAND)) cb] \<and>
            select_handler conv_handler (Some st) u =
              (if check_filter TEXT (effective_message u) \<and> \<not> check_filter COMMAND (effective_message u)
               then Some (MessageHandler (And_filter TEXT (Not_filter COMMAND)) cb)
               else if check_update (CommandHandler ''cancel'' cancel) u
               then Some (CommandHandler ''cancel'' cancel)
               else None)) \<and>
         (check_filter COMMAND (effective_message u) \<longrightarrow>
            handle_update conv_handler e u (Some st, w) =
              (if check_update (CommandHandler ''cancel'' cancel) u
               then (if message u = None then (Some st, w\<lparr>user_data := Map.empty\<rparr>)
                     else (None, w\<lparr>user_data := Map.empty,
                                    trace := trace w @ [Reply (ustr ''Entry cancelled.'')]\<rparr>))
               else (Some st, w)))"
proof -
  from select_awaiting [OF assms, of u] obtain cb where
    cb: "states conv_handler st = Some [MessageHandler (And_filter TEXT (Not_filter COMMAND)) cb]"
    and sel: "select_handler conv_handler (Some st) u =
       (if check_filter TEXT (effective_message u) \<and> \<not> check_filter COMMAND (effective_message u)
        then Some (MessageHandler (And_filter TEXT (Not_filter COMMAND)) cb)
        else if check_update (CommandHandler ''cancel'' cancel) u
        then Some (CommandHandler ''cancel'' cancel)
        else None)" by blast
  have "handle_update conv_handler e u (Some st, w) =
              (if check_update (CommandHandler ''cancel'' cancel) u
               then (if message u = None then (Some st, w\<lparr>user_data := Map.empty\<rparr>)
                     else (None, w\<lparr>user_data := Map.empty,
                                    trace := trace w @ [Reply (ustr ''Entry cancelled.'')]\<rparr>))
               else (Some st, w))"
    if c: "check_filter COMMAND (effective_message u)"
  proof (cases "check_update (CommandHandler ''cancel'' cancel) u")
    case True
    then obtain m where m: "effective_message u = Some m" "check_command ''cancel'' m"
      by (cases "effective_message u") simp_all
    from cancel_step [OF assms m, of e w] True show ?thesis by simp
  next
    case False
    then have "select_handler conv_handler (Some st) u = None" using sel c by simp
    then show ?thesis using False by (simp add: handle_update_def)
  qed
  with cb sel show ?thesis by blast
qed

theorem commands_not_amounts_witness:
  "UBER \<noteq> END \<and> check_filter COMMAND (effective_message (command_update ''help'')) \<and>
   select_handler conv_handler (Some UBER) (command_update ''help'') = None \<and>
   handle_update conv_handler env_ok (command_update ''help'') (Some UBER, cash_world) =
     (Some UBER, cash_world) \<and>
   check_filter COMMAND (effective_message (command_update ''cancel'')) \<and>
   handle_update conv_handler env_ok (command_update ''cancel'') (Some UBER, cash_world) =
     (None, empty_world\<lparr>trace := [Reply (ustr ''Entry cancelled.'')]\<rparr>)"
proof -
  have c: "check_filter COMMAND (effective_message (command_update ''help''))"
    "check_filter COMMAND (effective_message (command_update ''cancel''))"
    by (simp_all add: effective_message_def command_update_def command_message_def)
  have n: "\<not> check_update (CommandHandler ''cancel'' cancel) (command_update ''help'')"
    by (simp add: effective_message_def check_command_def command_update_def command_message_def
        lower_def lower_char_def ustr_def)
  have y: "check_update (CommandHandler ''cancel'' cancel) (command_update ''cancel'')"
    "message (command_update ''cancel'') \<noteq> None"
    using cmd_cancel by (simp_all add: effective_message_def command_update_def)
  from commands_not_amounts [of UBER "command_update ''help''" env_ok cash_world] c(1) n
  have 1: "select_handler conv_handler (Some UBER) (command_update ''help'') = None"
    "handle_update conv_handler env_ok (command_update ''help'') (Some UBER, cash_world) =
     (Some UBER, cash_world)"
    by auto
  from commands_not_amounts [of UBER "command_update ''cancel''" env_ok cash_world] c(2) y
  have 2: "handle_update conv_handler env_ok (command_update ''cancel'') (Some UBER, cash_world) =
     (None, empty_world\<lparr>trace := [Reply (ustr ''Entry cancelled.'')]\<rparr>)"
    by (simp add: cash_world_def empty_world_def)
  show ?thesis using c 1 2 by simp
qed

text \<open>
  C1, as amended. For a text of at most \<open>MAX_DIGITS\<close> characters the validator returns true
  exactly when the text is a float literal: every character is ASCII, Unicode white space
  or a Unicode decimal digit and, with white space outside ASCII read as a blank and a
  decimal digit outside ASCII as the ASCII digit of its value, every underscore stands
  between two digits, and without the underscores the text is, between white space, an
  optional sign followed by a decimal number with an optional exponent or by \<^verbatim>\<open>inf\<close>,
  \<^verbatim>\<open>infinity\<close> or \<^verbatim>\<open>nan\<close> in any letter case. Every optionally signed integer or decimal
  is such a text, so the validator accepts it; it accepts 12, 12.5 and -3.2 and rejects
  the empty text, abc and 12x.
\<close>

theorem is_number_float_literal:
  assumes "length s \<le> MAX_DIGITS"
  shows "(is_number (Some s) \<longleftrightarrow> float_text s) \<and>
         (plain_decimal s \<longrightarrow> is_number (Some s)) \<and>
         is_number (Some (ustr ''12'')) \<and> is_number (Some (ustr ''12.5'')) \<and>
         is_number (Some (ustr ''-3.2'')) \<and>
         \<not> is_number (Some []) \<and> \<not> is_number (Some (ustr ''abc'')) \<and>
         \<not> is_number (Some (ustr ''12x''))"
proof -
  have a: "is_number (Some s) \<longleftrightarrow> float_text s"
    by (rule is_number_iff_float_text [OF assms])
  have b: "plain_decimal s \<longrightarrow> is_number (Some s)"
    using a plain_decimal_float_text by blast
  have c: "is_number (Some (ustr ''12''))" "is_number (Some (ustr ''12.5''))"
    "is_number (Some (ustr ''-3.2''))" "\<not> is_number (Some (ustr ''abc''))"
    "\<not> is_number (Some (ustr ''12x''))"
    by (simp_all add: float_defs transform_ustr)
  show ?thesis using a b c is_number_empty by blast
qed

theorem is_number_float_literal_witness:
  "length (ustr '' 1_000.5e-3 '') \<le> MAX_DIGITS \<and> is_number (Some (ustr '' 1_000.5e-3 '')) \<and>
   float_text (ustr '' 1_000.5e-3 '') \<and>
   length [0x3000, 0x661, 0x662, 0x2E, 0x35, 0xA0 :: nat] \<le> MAX_DIGITS \<and>
   is_number (Some [0x3000, 0x661, 0x662, 0x2E, 0x35, 0xA0]) \<and>
   float_text [0x3000, 0x661, 0x662, 0x2E, 0x35, 0xA0] \<and>
   plain_decimal (ustr ''-3.2'') \<and> is_number (Some (ustr ''-3.2'')) \<and>
   float_text (ustr ''-3.2'') \<and> \<not> float_text (ustr ''12x'') \<and>
   \<not> is_number (Some [0x31, 0xB2]) \<and> \<not> float_text [0x31, 0xB2]"
proof -
  have l: "length (ustr '' 1_000.5e-3 '') \<le> MAX_DIGITS" "length (ustr ''-3.2'') \<le> MAX_DIGITS"
    "length (ustr ''12x'') \<le> MAX_DIGITS"
    "length [0x3000, 0x661, 0x662, 0x2E, 0x35, 0xA0 :: nat] \<le> MAX_DIGITS"
    "length [0x31, 0xB2 :: nat] \<le> MAX_DIGITS"
    by (simp_all add: MAX_DIGITS_def ustr_def)
  have n: "is_number (Some (ustr '' 1_000.5e-3 ''))" by (simp add: float_defs transform_ustr)
  have u: "is_number (Some [0x3000, 0x661, 0x662, 0x2E, 0x35, 0xA0])"
    by (simp add: float_defs unicode_defs)
  have v: "\<not> is_number (Some [0x31, 0xB2])"
    by (simp add: float_defs unicode_defs)
  have p: "plain_decimal (ustr ''-3.2'')"
    by (simp add: plain_decimal_def chars_ustr ascii_ustr skip_sign_def is_digit_def)
  from is_number_float_literal [OF l(1)] is_number_float_literal [OF l(2)]
    is_number_float_literal [OF l(3)] is_number_float_literal [OF l(4)]
    is_number_float_literal [OF l(5)] l n u v p
  show ?thesis by blast
qed

text \<open>
  C1, as stated, fails: the validator returns true for nan and for inf, which \<^verbatim>\<open>float\<close>
  parses to a NaN and to an infinity, not to finite real numbers; neither text is an
  integer or a decimal.
\<close>

theorem is_number_finite_counterexample:
  "is_number (Some (ustr ''nan'')) \<and> py_float (Some (ustr ''nan'')) = Inr NaN \<and>
   \<not> plain_decimal (ustr ''nan'') \<and>
   is_number (Some (ustr ''inf'')) \<and> py_float (Some (ustr ''inf'')) = Inr Infinity \<and>
   \<not> plain_decimal (ustr ''inf'')"
  by (simp add: float_defs transform_ustr plain_decimal_def chars_ustr)

end
